theory Spec2Isabelle
  imports Complex_Main "HOL-Library.Sublist" "HOL-Library.Log_Nat"
begin

section \<open>Data model\<close>

text \<open>
  \<^verbatim>\<open>accounts/models.py\<close>: \<^verbatim>\<open>User(AbstractUser)\<close> with a unique \<^verbatim>\<open>email\<close>, a \<^verbatim>\<open>role\<close>
  (a string, \<^verbatim>\<open>"admin"\<close> or \<^verbatim>\<open>"user"\<close>, default \<^verbatim>\<open>"user"\<close>) and two time stamps. The primary
  key \<^verbatim>\<open>id\<close> is \<open>uid\<close> here; Django compares two model instances by that key.
\<close>

record user =
  uid :: nat
  username :: string
  email :: string
  password :: string
  role :: string
  user_created_at :: nat
  user_updated_at :: nat

definition ROLE_CHOICES :: "(string \<times> string) list" where
  "ROLE_CHOICES = [(''admin'', ''Admin''), (''user'', ''Regular User'')]"

text \<open>
  The task row. \<^verbatim>\<open>tasks/models.py\<close> is not among the sources; the columns are the ones that
  \<^verbatim>\<open>TaskSerializer.Meta.fields\<close> lists, the foreign key \<^verbatim>\<open>user\<close> being stored as the owner's
  primary key (Django's \<^verbatim>\<open>user_id\<close>). Time stamps are microseconds since the epoch.
\<close>

record task =
  task_id :: nat
  title :: string
  description :: string
  completed :: bool
  user_id :: nat
  created_at :: nat
  updated_at :: nat

text \<open>The task table: its rows in insertion order and the next primary key to hand out.\<close>

record store =
  tasks :: "task list"
  next_id :: nat

definition empty_store :: store where
  "empty_store = \<lparr>tasks = [], next_id = 1\<rparr>"

datatype http_method = GET | HEAD | OPTIONS | POST | PUT | PATCH | DELETE

datatype error = NotFound | PermissionDenied | ValidationError | IntegrityError

datatype py_error = ZeroDivisionError

section \<open>Access policy (\<^verbatim>\<open>tasks/permissions.py\<close>)\<close>

definition SAFE_METHODS :: "http_method list" where
  "SAFE_METHODS = [GET, HEAD, OPTIONS]"

text \<open>\<^verbatim>\<open>IsOwnerOrAdmin.has_object_permission(request, view, obj)\<close>, with both of its branches.\<close>

definition has_object_permission :: "http_method \<Rightarrow> user \<Rightarrow> task \<Rightarrow> bool" where
  "has_object_permission method request_user obj =
     (if method \<in> set SAFE_METHODS
      then role request_user = ''admin'' \<or> user_id obj = uid request_user
      else role request_user = ''admin'' \<or> user_id obj = uid request_user)"

section \<open>Query sets\<close>

text \<open>
  A query set is the list of rows it selects, in insertion order; Django orders the rows
  only when the query set is evaluated (see \<open>meta_ordering\<close>), and \<^verbatim>\<open>count()\<close> is its length.
\<close>

definition objects_all :: "task list \<Rightarrow> task list" where
  "objects_all rows = rows"

definition objects_filter_user :: "user \<Rightarrow> task list \<Rightarrow> task list" where
  "objects_filter_user u rows = filter (\<lambda>t. user_id t = uid u) rows"

text \<open>\<^verbatim>\<open>TaskListCreateView.get_queryset\<close>\<close>

definition list_get_queryset :: "user \<Rightarrow> task list \<Rightarrow> task list" where
  "list_get_queryset request_user rows =
     (if role request_user = ''admin'' then objects_all rows
      else objects_filter_user request_user rows)"

text \<open>\<^verbatim>\<open>TaskDetailView.get_queryset\<close>\<close>

definition detail_get_queryset :: "user \<Rightarrow> task list \<Rightarrow> task list" where
  "detail_get_queryset request_user rows =
     (if role request_user = ''admin'' then objects_all rows
      else objects_filter_user request_user rows)"

section \<open>Python floats\<close>

text \<open>
  \<^verbatim>\<open>task_stats\<close> divides two \<^verbatim>\<open>int\<close>s, multiplies by 100 and calls \<^verbatim>\<open>round(_, 2)\<close>: the first
  gives the binary64 number nearest to the quotient, the second the one nearest to the
  product, and \<^verbatim>\<open>round\<close> the one nearest to the decimal with two places that is nearest to
  its argument. Ties go to the even neighbour in all three. A finite binary64 number is
  the rational it denotes; \<open>float64\<close> rounds a rational to the nearest of them (53 bits,
  the smallest exponent \<open>- 1022\<close>; overflow does not arise for counts, whose quotient is
  at most 1).
\<close>

definition pow2 :: "int \<Rightarrow> rat" where
  "pow2 e = (if 0 \<le> e then 2 ^ nat e else 1 / 2 ^ nat (- e))"

definition floor_log2 :: "rat \<Rightarrow> int" where
  "floor_log2 q =
     (let (a, b) = quotient_of q; e0 = bitlen a - bitlen b
      in if q < pow2 e0 then e0 - 1 else e0)"

definition round_half_even :: "rat \<Rightarrow> int" where
  "round_half_even q =
     (let f = \<lfloor>q\<rfloor>; d = q - of_int f
      in if d < 1 / 2 then f else if 1 / 2 < d then f + 1 else if even f then f else f + 1)"

definition float64 :: "rat \<Rightarrow> rat" where
  "float64 q =
     (if q = 0 then 0
      else let e = max (floor_log2 \<bar>q\<bar>) (- 1022); u = pow2 (e - 52)
           in of_int (round_half_even (q / u)) * u)"

text \<open>\<^verbatim>\<open>a / b\<close> on two \<^verbatim>\<open>int\<close>s\<close>

definition py_truediv :: "int \<Rightarrow> int \<Rightarrow> py_error + rat" where
  "py_truediv a b = (if b = 0 then Inl ZeroDivisionError else Inr (float64 (of_int a / of_int b)))"

text \<open>\<^verbatim>\<open>x * n\<close> on a \<^verbatim>\<open>float\<close> and an \<^verbatim>\<open>int\<close>\<close>

definition py_mul :: "rat \<Rightarrow> int \<Rightarrow> rat" where
  "py_mul x n = float64 (x * float64 (of_int n))"

text \<open>\<^verbatim>\<open>round(x, ndigits)\<close> on a \<^verbatim>\<open>float\<close>\<close>

definition py_round :: "rat \<Rightarrow> nat \<Rightarrow> rat" where
  "py_round x ndigits = float64 (of_int (round_half_even (x * 10 ^ ndigits)) / 10 ^ ndigits)"

section \<open>Statistics (\<^verbatim>\<open>tasks/views.py\<close>, \<^verbatim>\<open>task_stats\<close>)\<close>

record stats =
  total_tasks :: nat
  completed_tasks :: nat
  pending_tasks :: nat
  completion_rate :: rat

text \<open>
  The conditional expression \<^verbatim>\<open>(c / t * 100) if t > 0 else 0\<close>, then \<^verbatim>\<open>round(_, 2)\<close>; on the
  \<^verbatim>\<open>int\<close> 0 \<^verbatim>\<open>round\<close> gives the \<^verbatim>\<open>int\<close> 0.
\<close>

definition rate_of :: "nat \<Rightarrow> nat \<Rightarrow> py_error + rat" where
  "rate_of completed_n total_n =
     (if total_n > 0
      then (case py_truediv (int completed_n) (int total_n) of
              Inl e \<Rightarrow> Inl e
            | Inr x \<Rightarrow> Inr (py_round (py_mul x 100) 2))
      else Inr 0)"

text \<open>Lines 64 to 67 of \<^verbatim>\<open>task_stats\<close>: the query set of the caller.\<close>

definition stats_queryset :: "user \<Rightarrow> task list \<Rightarrow> task list" where
  "stats_queryset request_user rows =
     (if role request_user = ''admin'' then objects_all rows
      else objects_filter_user request_user rows)"

text \<open>Lines 69 to 82 of \<^verbatim>\<open>task_stats\<close>: the counts over that query set and the response.\<close>

definition stats_of :: "task list \<Rightarrow> py_error + stats" where
  "stats_of queryset =
     (let total = length queryset;
          completed_n = length (filter (\<lambda>t. completed t = True) queryset);
          pending = total - completed_n
      in case rate_of completed_n total of
           Inl e \<Rightarrow> Inl e
         | Inr r \<Rightarrow> Inr \<lparr>total_tasks = total, completed_tasks = completed_n,
                          pending_tasks = pending, completion_rate = r\<rparr>)"

definition task_stats :: "user \<Rightarrow> task list \<Rightarrow> py_error + stats" where
  "task_stats request_user rows = stats_of (stats_queryset request_user rows)"

text \<open>
  The rate in the specification's words, to compare with the one that the code computes:
  "\<^verbatim>\<open>completionRate = round(completed / total * 100, 2 decimal places)\<close>, with
  \<^verbatim>\<open>completionRate = 0\<close> when \<^verbatim>\<open>total == 0\<close>", in exact arithmetic; a percentage half-way
  between two decimals goes to the even one, as Python's \<^verbatim>\<open>round\<close> has it.
\<close>

definition exact_rate :: "nat \<Rightarrow> nat \<Rightarrow> rat" where
  "exact_rate completed_n total_n =
     (if total_n = 0 then 0
      else of_int (round_half_even (of_nat completed_n / of_nat total_n * 100 * 10 ^ 2)) / 10 ^ 2)"

section \<open>Filtering (\<^verbatim>\<open>tasks/filters.py\<close>)\<close>

text \<open>
  The query string of \<^verbatim>\<open>GET /tasks\<close>, parsed: the three parameters of \<^verbatim>\<open>TaskFilter\<close> (the
  date range as \<^verbatim>\<open>created_at_after\<close> and \<^verbatim>\<open>created_at_before\<close>, days since the epoch), and
  \<^verbatim>\<open>search\<close>, \<^verbatim>\<open>ordering\<close> and \<^verbatim>\<open>page\<close>.
\<close>

record query_params =
  q_completed :: "bool option"
  q_title :: "string option"
  q_created_at_after :: "nat option"
  q_created_at_before :: "nat option"
  q_search :: "string option"
  q_ordering :: "string option"
  q_page :: "nat option"

definition no_params :: query_params where
  "no_params = \<lparr>q_completed = None, q_title = None, q_created_at_after = None,
     q_created_at_before = None, q_search = None, q_ordering = None, q_page = None\<rparr>"

definition lower_char :: "char \<Rightarrow> char" where
  "lower_char c =
     (let n = (of_char c :: nat) in if 65 \<le> n \<and> n \<le> 90 then char_of (n + 32) else c)"

text \<open>The lookup \<^verbatim>\<open>icontains\<close>: \<open>needle\<close> occurs in \<open>field\<close>, letter case apart.\<close>

definition icontains :: "string \<Rightarrow> string \<Rightarrow> bool" where
  "icontains field needle = sublist (map lower_char needle) (map lower_char field)"

definition date_of :: "nat \<Rightarrow> nat" where
  "date_of stamp = stamp div 86400000000"

text \<open>
  \<^verbatim>\<open>TaskFilter\<close>: \<^verbatim>\<open>completed\<close> exact, \<^verbatim>\<open>title\<close> with \<^verbatim>\<open>icontains\<close>, \<^verbatim>\<open>created_at\<close> between two
  days, both included; a parameter that is absent does not filter.
\<close>

definition TaskFilter :: "query_params \<Rightarrow> task list \<Rightarrow> task list" where
  "TaskFilter q queryset =
     filter (\<lambda>t.
        (case q_completed q of None \<Rightarrow> True | Some b \<Rightarrow> completed t = b) \<and>
        (case q_title q of None \<Rightarrow> True | Some s \<Rightarrow> icontains (title t) s) \<and>
        (case q_created_at_after q of None \<Rightarrow> True | Some d \<Rightarrow> d \<le> date_of (created_at t)) \<and>
        (case q_created_at_before q of None \<Rightarrow> True | Some d \<Rightarrow> date_of (created_at t) \<le> d))
       queryset"

text \<open>
  \<^verbatim>\<open>GenericAPIView.filter_queryset\<close> runs the back ends of \<^verbatim>\<open>filter_backends\<close> in turn. The
  list view sets \<^verbatim>\<open>filter_backends = [DjangoFilterBackend]\<close>, whose filter set is
  \<^verbatim>\<open>TaskFilter\<close>; no back end reads \<^verbatim>\<open>search_fields\<close>, \<^verbatim>\<open>ordering_fields\<close> or \<^verbatim>\<open>ordering\<close>.
\<close>

definition filter_queryset :: "query_params \<Rightarrow> task list \<Rightarrow> task list" where
  "filter_queryset q queryset = TaskFilter q queryset"

section \<open>Ordering and pagination\<close>

text \<open>
  Modelled from the spec: the \<^verbatim>\<open>Meta.ordering\<close> of the \<^verbatim>\<open>Task\<close> model (\<^verbatim>\<open>tasks/models.py\<close>
  is not among the sources). "Default order is \<^verbatim>\<open>createdAt\<close> descending. Ties broken by
  insertion order (stable sort)."
\<close>

definition meta_ordering :: "task list \<Rightarrow> task list" where
  "meta_ordering queryset = sort_key (\<lambda>t. - int (created_at t)) queryset"

record page =
  count :: nat
  has_next :: bool
  has_previous :: bool
  results :: "task list"

definition PAGE_SIZE :: nat where
  "PAGE_SIZE = 20"

text \<open>
  Modelled from the spec: the paginator, which the project's settings choose (they are
  not among the sources). "Fixed page size (default 20), 1-indexed page number. Response
  carries total count over the filtered, scoped set, plus whether a next/previous page
  exists. Requesting a page beyond the last returns an empty result set, not an error."
  The spec gives no page 0.
\<close>

definition paginate_queryset :: "nat \<Rightarrow> task list \<Rightarrow> page" where
  "paginate_queryset page_number queryset =
     \<lparr>count = length queryset,
      has_next = (page_number * PAGE_SIZE < length queryset),
      has_previous = (1 < page_number),
      results = take PAGE_SIZE (drop ((page_number - 1) * PAGE_SIZE) queryset)\<rparr>"

section \<open>The list view (\<^verbatim>\<open>TaskListCreateView\<close>, \<^verbatim>\<open>GET\<close>)\<close>

text \<open>
  \<^verbatim>\<open>ListModelMixin.list\<close>: \<^verbatim>\<open>filter_queryset(get_queryset())\<close>, then the page of it; the rows
  come out in the model's order. A request without \<^verbatim>\<open>page\<close> asks for page 1.
\<close>

definition list_tasks :: "user \<Rightarrow> query_params \<Rightarrow> task list \<Rightarrow> page" where
  "list_tasks request_user q rows =
     paginate_queryset (case q_page q of None \<Rightarrow> 1 | Some n \<Rightarrow> n)
       (meta_ordering (filter_queryset q (list_get_queryset request_user rows)))"

section \<open>Creating and changing tasks\<close>

text \<open>
  The body of a \<^verbatim>\<open>POST\<close>, \<^verbatim>\<open>PUT\<close> or \<^verbatim>\<open>PATCH\<close>. \<^verbatim>\<open>TaskCreateUpdateSerializer\<close> reads the fields
  \<^verbatim>\<open>title\<close>, \<^verbatim>\<open>description\<close> and \<^verbatim>\<open>completed\<close>; \<open>p_user\<close> is an owner that the client may
  send along, which is not among the serializer's fields.
\<close>

record task_payload =
  p_title :: "string option"
  p_description :: "string option"
  p_completed :: "bool option"
  p_user :: "nat option"

text \<open>
  Modelled from the spec: the constraints on the columns, which \<^verbatim>\<open>tasks/models.py\<close> states (it
  is not among the sources). "\<^verbatim>\<open>title\<close> (required, non-empty), \<^verbatim>\<open>description\<close> (optional),
  \<^verbatim>\<open>completed\<close> (boolean, default false)". A partial update (\<^verbatim>\<open>PATCH\<close>) may leave any field
  out.
\<close>

definition is_valid :: "bool \<Rightarrow> task_payload \<Rightarrow> bool" where
  "is_valid partial p =
     (case p_title p of None \<Rightarrow> partial | Some s \<Rightarrow> s \<noteq> [])"

text \<open>
  \<^verbatim>\<open>CreateModelMixin.create\<close> with \<^verbatim>\<open>perform_create\<close>: \<^verbatim>\<open>serializer.save(user=request.user)\<close>.
  The row gets the next primary key and both time stamps are the time of the request.
\<close>

definition create :: "user \<Rightarrow> task_payload \<Rightarrow> nat \<Rightarrow> store \<Rightarrow> (error + task) \<times> store" where
  "create request_user p now s =
     (if \<not> is_valid False p then (Inl ValidationError, s)
      else let t = \<lparr>task_id = next_id s,
                     title = (case p_title p of None \<Rightarrow> [] | Some v \<Rightarrow> v),
                     description = (case p_description p of None \<Rightarrow> [] | Some v \<Rightarrow> v),
                     completed = (case p_completed p of None \<Rightarrow> False | Some v \<Rightarrow> v),
                     user_id = uid request_user,
                     created_at = now, updated_at = now\<rparr>
           in (Inr t, \<lparr>tasks = tasks s @ [t], next_id = next_id s + 1\<rparr>))"

text \<open>
  \<^verbatim>\<open>GenericAPIView.get_object\<close>: \<^verbatim>\<open>get_object_or_404\<close> on the view's query set by primary key,
  then \<^verbatim>\<open>check_object_permissions\<close> with the view's \<^verbatim>\<open>permission_classes\<close>.
\<close>

definition get_object :: "http_method \<Rightarrow> user \<Rightarrow> nat \<Rightarrow> task list \<Rightarrow> error + task" where
  "get_object method request_user pk rows =
     (case find (\<lambda>t. task_id t = pk) (detail_get_queryset request_user rows) of
        None \<Rightarrow> Inl NotFound
      | Some obj \<Rightarrow>
          if has_object_permission method request_user obj then Inr obj
          else Inl PermissionDenied)"

text \<open>\<^verbatim>\<open>GET /tasks/{id}\<close>\<close>

definition retrieve :: "user \<Rightarrow> nat \<Rightarrow> store \<Rightarrow> error + task" where
  "retrieve request_user pk s = get_object GET request_user pk (tasks s)"

text \<open>
  \<^verbatim>\<open>PUT\<close> and \<^verbatim>\<open>PATCH /tasks/{id}\<close> (\<^verbatim>\<open>UpdateModelMixin.update\<close>): the object first, then the
  validation of the body, then the fields of \<^verbatim>\<open>TaskCreateUpdateSerializer\<close> that the body
  gives are written and \<^verbatim>\<open>updated_at\<close> is set.
\<close>

definition apply_payload :: "task_payload \<Rightarrow> nat \<Rightarrow> task \<Rightarrow> task" where
  "apply_payload p now obj =
     obj\<lparr>title := (case p_title p of None \<Rightarrow> title obj | Some v \<Rightarrow> v),
         description := (case p_description p of None \<Rightarrow> description obj | Some v \<Rightarrow> v),
         completed := (case p_completed p of None \<Rightarrow> completed obj | Some v \<Rightarrow> v),
         updated_at := now\<rparr>"

definition update ::
  "http_method \<Rightarrow> user \<Rightarrow> nat \<Rightarrow> task_payload \<Rightarrow> nat \<Rightarrow> store \<Rightarrow> (error + task) \<times> store" where
  "update method request_user pk p now s =
     (case get_object method request_user pk (tasks s) of
        Inl e \<Rightarrow> (Inl e, s)
      | Inr obj \<Rightarrow>
          if \<not> is_valid (method = PATCH) p then (Inl ValidationError, s)
          else let obj' = apply_payload p now obj
               in (Inr obj',
                   s\<lparr>tasks := map (\<lambda>t. if task_id t = pk then obj' else t) (tasks s)\<rparr>))"

text \<open>\<^verbatim>\<open>DELETE /tasks/{id}\<close> (\<^verbatim>\<open>DestroyModelMixin.destroy\<close>)\<close>

definition destroy :: "user \<Rightarrow> nat \<Rightarrow> store \<Rightarrow> (error + unit) \<times> store" where
  "destroy request_user pk s =
     (case get_object DELETE request_user pk (tasks s) of
        Inl e \<Rightarrow> (Inl e, s)
      | Inr obj \<Rightarrow> (Inr (), s\<lparr>tasks := filter (\<lambda>t. task_id t \<noteq> pk) (tasks s)\<rparr>))"

text \<open>
  A history of requests, and for each primary key the caller whose \<^verbatim>\<open>POST\<close> made the row
  (\<open>creators\<close> is kept beside the store; the program does not store it).
\<close>

datatype request =
    CreateTask user task_payload nat
  | UpdateTask http_method user nat task_payload nat
  | DeleteTask user nat

fun step :: "request \<Rightarrow> store \<times> (nat \<rightharpoonup> nat) \<Rightarrow> store \<times> (nat \<rightharpoonup> nat)" where
  "step (CreateTask u p now) (s, creators) =
     (case create u p now s of
        (Inl e, s') \<Rightarrow> (s', creators)
      | (Inr t, s') \<Rightarrow> (s', creators(task_id t \<mapsto> uid u)))"
| "step (UpdateTask m u pk p now) (s, creators) = (snd (update m u pk p now s), creators)"
| "step (DeleteTask u pk) (s, creators) = (snd (destroy u pk s), creators)"

fun run :: "request list \<Rightarrow> store \<times> (nat \<rightharpoonup> nat) \<Rightarrow> store \<times> (nat \<rightharpoonup> nat)" where
  "run [] sc = sc"
| "run (r # rs) sc = run rs (step r sc)"

section \<open>Registration (\<^verbatim>\<open>accounts/serializers.py\<close>, \<^verbatim>\<open>accounts/views.py\<close>)\<close>

text \<open>
  The body of \<^verbatim>\<open>POST /register\<close>, with the fields of \<^verbatim>\<open>UserRegistrationSerializer\<close>. The view
  has \<^verbatim>\<open>permission_classes = [AllowAny]\<close>: there is no caller.
\<close>

record registration =
  r_username :: "string option"
  r_email :: "string option"
  r_password :: "string option"
  r_password_confirm :: "string option"
  r_role :: "string option"

record user_table =
  users :: "user list"
  next_uid :: nat

text \<open>
  What Django, Django REST framework and the project's settings supply and the sources do
  not show: what a text field makes of the text sent (\<^verbatim>\<open>to_internal_value\<close>), the password
  validators behind \<^verbatim>\<open>validate_password\<close>, the format checks of the \<^verbatim>\<open>username\<close> and \<^verbatim>\<open>email\<close>
  fields, and what \<^verbatim>\<open>create_user\<close> does to the user name, the e-mail address and the
  password before it stores them.
\<close>

record auth_config =
  to_internal_value :: "string \<Rightarrow> string"
  validate_password :: "string \<Rightarrow> bool"
  username_validator :: "string \<Rightarrow> bool"
  email_validator :: "string \<Rightarrow> bool"
  normalize_username :: "string \<Rightarrow> string"
  normalize_email :: "string \<Rightarrow> string"
  make_password :: "string \<Rightarrow> string"

text \<open>The four text fields as the serializer reads them; \<^verbatim>\<open>role\<close> is a choice field.\<close>

definition validated_data :: "auth_config \<Rightarrow> registration \<Rightarrow> registration" where
  "validated_data cfg r =
     r\<lparr>r_username := map_option (to_internal_value cfg) (r_username r),
       r_email := map_option (to_internal_value cfg) (r_email r),
       r_password := map_option (to_internal_value cfg) (r_password r),
       r_password_confirm := map_option (to_internal_value cfg) (r_password_confirm r)\<rparr>"

text \<open>
  \<^verbatim>\<open>serializer.is_valid\<close>: the four fields without a default are required; \<^verbatim>\<open>username\<close> and
  \<^verbatim>\<open>email\<close> are unique columns, and the serializer looks the values up as it read them;
  \<^verbatim>\<open>role\<close>, when given, is one of \<^verbatim>\<open>ROLE_CHOICES\<close>; then \<^verbatim>\<open>validate\<close> compares the two
  passwords.
\<close>

definition registration_is_valid :: "auth_config \<Rightarrow> registration \<Rightarrow> user list \<Rightarrow> bool" where
  "registration_is_valid cfg r existing =
     (let d = validated_data cfg r
      in case (r_username d, r_email d, r_password d, r_password_confirm d) of
           (Some n, Some e, Some pw, Some pw2) \<Rightarrow>
             username_validator cfg n \<and> n \<notin> set (map username existing) \<and>
             email_validator cfg e \<and> e \<notin> set (map email existing) \<and>
             validate_password cfg pw \<and>
             (case r_role d of None \<Rightarrow> True | Some x \<Rightarrow> x \<in> set (map fst ROLE_CHOICES)) \<and>
             pw = pw2
         | _ \<Rightarrow> False)"

text \<open>
  The row that \<^verbatim>\<open>create_user\<close> builds from the validated data: \<^verbatim>\<open>password_confirm\<close> is dropped,
  the user name and the e-mail address are normalised, the password is hashed, and \<^verbatim>\<open>role\<close>
  has the default \<^verbatim>\<open>"user"\<close> (\<^verbatim>\<open>extra_kwargs\<close>).
\<close>

definition new_user :: "auth_config \<Rightarrow> registration \<Rightarrow> nat \<Rightarrow> nat \<Rightarrow> user" where
  "new_user cfg r now key =
     (let d = validated_data cfg r
      in \<lparr>uid = key,
          username = normalize_username cfg (the (r_username d)),
          email = normalize_email cfg (the (r_email d)),
          password = make_password cfg (the (r_password d)),
          role = (case r_role d of None \<Rightarrow> ''user'' | Some x \<Rightarrow> x),
          user_created_at = now, user_updated_at = now\<rparr>)"

text \<open>
  The unique columns \<^verbatim>\<open>username\<close> and \<^verbatim>\<open>email\<close> (\<^verbatim>\<open>accounts/models.py\<close>) as the table checks them
  when the row is inserted: on the values that are stored.
\<close>

definition unique_columns :: "user \<Rightarrow> user list \<Rightarrow> bool" where
  "unique_columns u existing =
     (username u \<notin> set (map username existing) \<and> email u \<notin> set (map email existing))"

text \<open>
  \<^verbatim>\<open>RegisterView.create\<close>: \<^verbatim>\<open>is_valid(raise_exception=True)\<close>, then \<^verbatim>\<open>serializer.save()\<close>, which
  calls \<^verbatim>\<open>create_user\<close>; the insert raises \<^verbatim>\<open>IntegrityError\<close> when a unique column would hold
  a value twice, and nothing is stored then. The response also carries two tokens, which
  are left out.
\<close>

definition register ::
  "auth_config \<Rightarrow> registration \<Rightarrow> nat \<Rightarrow> user_table \<Rightarrow> (error + user) \<times> user_table" where
  "register cfg r now tbl =
     (if \<not> registration_is_valid cfg r (users tbl) then (Inl ValidationError, tbl)
      else let u = new_user cfg r now (next_uid tbl)
           in if \<not> unique_columns u (users tbl) then (Inl IntegrityError, tbl)
              else (Inr u, \<lparr>users = users tbl @ [u], next_uid = next_uid tbl + 1\<rparr>))"

section \<open>The fixtures of \<^verbatim>\<open>tasks/tests.py\<close>\<close>

text \<open>
  \<^verbatim>\<open>TaskAPITest.setUp\<close>: three users and three tasks, made in this order; the time stamps
  stand for three successive moments.
\<close>

definition user1 :: user where
  "user1 = \<lparr>uid = 1, username = ''user1'', email = ''user1@example.com'',
     password = ''testpass123'', role = ''user'', user_created_at = 1, user_updated_at = 1\<rparr>"

definition user2 :: user where
  "user2 = \<lparr>uid = 2, username = ''user2'', email = ''user2@example.com'',
     password = ''testpass123'', role = ''user'', user_created_at = 2, user_updated_at = 2\<rparr>"

definition admin_user :: user where
  "admin_user = \<lparr>uid = 3, username = ''admin'', email = ''admin@example.com'',
     password = ''testpass123'', role = ''admin'', user_created_at = 3, user_updated_at = 3\<rparr>"

definition task1 :: task where
  "task1 = \<lparr>task_id = 1, title = ''User1 Task 1'', description = ''Task 1 for user 1'',
     completed = False, user_id = 1, created_at = 4, updated_at = 4\<rparr>"

definition task2 :: task where
  "task2 = \<lparr>task_id = 2, title = ''User1 Task 2'', description = ''Task 2 for user 1'',
     completed = True, user_id = 1, created_at = 5, updated_at = 5\<rparr>"

definition task3 :: task where
  "task3 = \<lparr>task_id = 3, title = ''User2 Task 1'', description = ''Task 1 for user 2'',
     completed = False, user_id = 2, created_at = 6, updated_at = 6\<rparr>"

definition test_store :: store where
  "test_store = \<lparr>tasks = [task1, task2, task3], next_id = 4\<rparr>"

text \<open>The body of the \<^verbatim>\<open>PUT\<close> in \<^verbatim>\<open>test_update_task\<close>.\<close>

definition update_data :: task_payload where
  "update_data = \<lparr>p_title = Some ''Updated Task Title'',
     p_description = Some ''Updated description'', p_completed = Some True, p_user = None\<rparr>"

text \<open>
  The body of the \<^verbatim>\<open>POST\<close> in \<^verbatim>\<open>test_create_task\<close>, with an owner added by the client (the
  key of \<open>user2\<close>); the row it makes in the empty table at time 7 for \<open>user1\<close>; and a
  history of two requests.
\<close>

definition new_task_data :: task_payload where
  "new_task_data = \<lparr>p_title = Some ''New Test Task'',
     p_description = Some ''New test description'', p_completed = Some False, p_user = Some 2\<rparr>"

definition created_task :: task where
  "created_task = \<lparr>task_id = 1, title = ''New Test Task'',
     description = ''New test description'', completed = False, user_id = 1,
     created_at = 7, updated_at = 7\<rparr>"

definition history :: "request list" where
  "history = [CreateTask user1 new_task_data 7, UpdateTask PUT admin_user 1 update_data 8]"

text \<open>
  The invariant of a history: every row's key was handed out already, and the caller
  recorded for that key is the row's owner.
\<close>

definition owners_recorded :: "store \<times> (nat \<rightharpoonup> nat) \<Rightarrow> bool" where
  "owners_recorded sc =
     (\<forall>t \<in> set (tasks (fst sc)). task_id t < next_id (fst sc) \<and> snd sc (task_id t) = Some (user_id t))"

text \<open>
  One choice of what the sources do not show: text fields strip nothing, passwords have 8
  characters or more, and the e-mail address is stored with its domain in lower case.
\<close>

definition lower_domain :: "string \<Rightarrow> string" where
  "lower_domain e =
     (if CHR ''@'' \<in> set e
      then rev (dropWhile (\<lambda>c. c \<noteq> CHR ''@'') (rev e))
           @ map lower_char (rev (takeWhile (\<lambda>c. c \<noteq> CHR ''@'') (rev e)))
      else e)"

definition test_config :: auth_config where
  "test_config = \<lparr>to_internal_value = (\<lambda>x. x),
     validate_password = (\<lambda>pw. 8 \<le> length pw),
     username_validator = (\<lambda>n. n \<noteq> []),
     email_validator = (\<lambda>e. CHR ''@'' \<in> set e),
     normalize_username = (\<lambda>n. n),
     normalize_email = lower_domain,
     make_password = (\<lambda>pw. pw)\<rparr>"

text \<open>
  A registration as in \<^verbatim>\<open>AuthenticationTest.setUp\<close>, asking for the role \<^verbatim>\<open>"admin"\<close>, in an
  empty user table; the user it creates at time 7 and the table after it; and a second
  registration whose e-mail address differs from the first in the case of the domain only.
\<close>

definition admin_registration :: registration where
  "admin_registration = \<lparr>r_username = Some ''testuser'', r_email = Some ''test@example.com'',
     r_password = Some ''testpass123'', r_password_confirm = Some ''testpass123'',
     r_role = Some ''admin''\<rparr>"

definition registered_admin :: user where
  "registered_admin = \<lparr>uid = 1, username = ''testuser'', email = ''test@example.com'',
     password = ''testpass123'', role = ''admin'', user_created_at = 7, user_updated_at = 7\<rparr>"

definition no_users :: user_table where
  "no_users = \<lparr>users = [], next_uid = 1\<rparr>"

definition one_user :: user_table where
  "one_user = \<lparr>users = [registered_admin], next_uid = 2\<rparr>"

definition second_registration :: registration where
  "second_registration = \<lparr>r_username = Some ''existing'', r_email = Some ''test@EXAMPLE.com'',
     r_password = Some ''testpass123'', r_password_confirm = Some ''testpass123'',
     r_role = None\<rparr>"

text \<open>
  \<^verbatim>\<open>PaginationTest.setUp\<close>: 25 tasks of one user, made one after the other (the titles and
  descriptions, which the test numbers, are shortened).
\<close>

definition pagination_tasks :: "task list" where
  "pagination_tasks =
     map (\<lambda>i. \<lparr>task_id = i, title = ''Task'', description = ''Description for task'',
                completed = False, user_id = 1, created_at = i, updated_at = i\<rparr>) [1..<26]"

text \<open>160 tasks of one user, the first 23 of them completed.\<close>

definition stats_tasks :: "task list" where
  "stats_tasks =
     map (\<lambda>i. \<lparr>task_id = i, title = ''Task'', description = [],
                completed = (i \<le> 23), user_id = 1, created_at = i, updated_at = i\<rparr>) [1..<161]"

section \<open>The access policy\<close>

text \<open>
  C3. For every caller and every task, for every HTTP method, the object permission is
  "the caller's role is admin, or the task's owner is the caller": the decision is the
  same for the methods that read (\<open>SAFE_METHODS\<close>) and for those that write.
\<close>

theorem has_object_permission_rule:
  "has_object_permission method request_user obj
     = (role request_user = ''admin'' \<or> user_id obj = uid request_user)
   \<and> has_object_permission method request_user obj
     = has_object_permission method' request_user obj"
  by (simp add: has_object_permission_def)

section \<open>The scoped set\<close>

text \<open>
  C10. For every caller and every content of the task table, the query set that
  \<^verbatim>\<open>task_stats\<close> builds (lines 64 to 67) is the query set that the list view's
  \<^verbatim>\<open>get_queryset\<close> returns, so the statistics are the counts over the set that the list
  starts from.
\<close>

theorem stats_scope_is_list_scope:
  "stats_queryset request_user rows = list_get_queryset request_user rows
   \<and> task_stats request_user rows = stats_of (list_get_queryset request_user rows)"
  by (simp add: stats_queryset_def list_get_queryset_def task_stats_def)

section \<open>The list view is scoped\<close>

lemma set_meta_ordering: "set (meta_ordering xs) = set xs"
  by (simp add: meta_ordering_def)

lemma length_meta_ordering: "length (meta_ordering xs) = length xs"
  by (simp add: meta_ordering_def)

lemma set_filter_queryset: "set (filter_queryset q xs) \<subseteq> set xs"
  by (auto simp: filter_queryset_def TaskFilter_def)

lemma filter_queryset_no_params: "filter_queryset (no_params\<lparr>q_page := p\<rparr>) xs = xs"
  by (simp add: filter_queryset_def TaskFilter_def no_params_def)

lemma set_results_paginate: "set (results (paginate_queryset p xs)) \<subseteq> set xs"
  by (auto simp: paginate_queryset_def dest: in_set_takeD in_set_dropD)

lemma in_some_page:
  assumes "t \<in> set xs"
  shows "\<exists>p\<ge>1. t \<in> set (results (paginate_queryset p xs))"
proof -
  from assms obtain i where i: "i < length xs" "xs ! i = t"
    by (auto simp: in_set_conv_nth)
  let ?p = "i div PAGE_SIZE + 1"
  have ps: "0 < PAGE_SIZE" by (simp add: PAGE_SIZE_def)
  have d: "(?p - 1) * PAGE_SIZE + i mod PAGE_SIZE = i" by simp
  have lt: "i mod PAGE_SIZE < PAGE_SIZE" using ps by simp
  have len: "i mod PAGE_SIZE < length (drop ((?p - 1) * PAGE_SIZE) xs)"
    using i(1) d by (simp add: less_diff_conv)
  have "take PAGE_SIZE (drop ((?p - 1) * PAGE_SIZE) xs) ! (i mod PAGE_SIZE) = t"
    using lt len i d by (simp only: nth_take nth_drop) 
  moreover have "i mod PAGE_SIZE < length (take PAGE_SIZE (drop ((?p - 1) * PAGE_SIZE) xs))"
    using lt len by simp
  ultimately have "t \<in> set (take PAGE_SIZE (drop ((?p - 1) * PAGE_SIZE) xs))"
    by (metis nth_mem)
  then have "t \<in> set (results (paginate_queryset ?p xs))"
    by (simp add: paginate_queryset_def)
  then show ?thesis by (intro exI[of _ ?p]) simp
qed


lemma list_scope_eq: "list_get_queryset u rows
      = (if role u = ''admin'' then rows else filter (\<lambda>t. user_id t = uid u) rows)"
  by (simp add: list_get_queryset_def objects_all_def objects_filter_user_def)

lemma list_results_subset:
  "set (results (list_tasks u q rows)) \<subseteq> set (list_get_queryset u rows)"
proof -
  have "set (results (list_tasks u q rows))
      \<subseteq> set (meta_ordering (filter_queryset q (list_get_queryset u rows)))"
    unfolding list_tasks_def by (rule set_results_paginate)
  also have "\<dots> = set (filter_queryset q (list_get_queryset u rows))"
    by (rule set_meta_ordering)
  also have "\<dots> \<subseteq> set (list_get_queryset u rows)"
    by (rule set_filter_queryset)
  finally show ?thesis .
qed

lemma list_results_own:
  assumes "role u \<noteq> ''admin''" "t \<in> set (results (list_tasks u q rows))"
  shows "user_id t = uid u"
proof -
  have "t \<in> set (list_get_queryset u rows)" using assms(2) list_results_subset by blast
  then show ?thesis using assms(1) by (simp add: list_scope_eq)
qed

lemma list_count_unfiltered:
  "count (list_tasks u (no_params\<lparr>q_page := p\<rparr>) rows) = length (list_get_queryset u rows)"
  by (simp add: list_tasks_def paginate_queryset_def length_meta_ordering
        filter_queryset_no_params)

lemma list_pages_cover:
  "(\<Union>n \<in> {1..}. set (results (list_tasks u (no_params\<lparr>q_page := Some n\<rparr>) rows)))
      = set (list_get_queryset u rows)" (is "?L = ?R")
proof
  show "?L \<subseteq> ?R" using list_results_subset by blast
  show "?R \<subseteq> ?L"
  proof
    fix t assume "t \<in> ?R"
    then have "t \<in> set (meta_ordering (list_get_queryset u rows))"
      by (simp add: set_meta_ordering)
    from in_some_page[OF this] obtain n where n: "1 \<le> n"
      "t \<in> set (results (paginate_queryset n (meta_ordering (list_get_queryset u rows))))"
      by blast
    have "list_tasks u (no_params\<lparr>q_page := Some n\<rparr>) rows
        = paginate_queryset n (meta_ordering (list_get_queryset u rows))"
      by (simp add: list_tasks_def filter_queryset_no_params)
    with n(2) have "t \<in> set (results (list_tasks u (no_params\<lparr>q_page := Some n\<rparr>) rows))"
      by simp
    moreover have "n \<in> {1..}" using n(1) by simp
    ultimately show "t \<in> ?L" by blast
  qed
qed


text \<open>
  C1. For every caller, the list view computes over the caller's scoped set: all rows when
  the caller's role is admin, otherwise the rows whose owner is the caller. The filters,
  the ordering and the pagination are applied to that set, so every row of a response is
  in it, a caller who is not an admin never gets a row of another owner, and without
  filters the count is the size of the set and the pages together hold exactly its rows.
\<close>

theorem list_tasks_scoped:
  "list_get_queryset u rows
     = (if role u = ''admin'' then rows else filter (\<lambda>t. user_id t = uid u) rows)
   \<and> list_tasks u q rows
     = paginate_queryset (case q_page q of None \<Rightarrow> 1 | Some n \<Rightarrow> n)
         (meta_ordering (filter_queryset q (list_get_queryset u rows)))
   \<and> set (results (list_tasks u q rows)) \<subseteq> set (list_get_queryset u rows)
   \<and> (role u \<noteq> ''admin'' \<longrightarrow> (\<forall>t \<in> set (results (list_tasks u q rows)). user_id t = uid u))
   \<and> count (list_tasks u (no_params\<lparr>q_page := p\<rparr>) rows) = length (list_get_queryset u rows)
   \<and> (\<Union>n \<in> {1..}. set (results (list_tasks u (no_params\<lparr>q_page := Some n\<rparr>) rows)))
     = set (list_get_queryset u rows)"
proof (intro conjI)
  show "list_get_queryset u rows
     = (if role u = ''admin'' then rows else filter (\<lambda>t. user_id t = uid u) rows)"
    by (rule list_scope_eq)
  show "list_tasks u q rows
     = paginate_queryset (case q_page q of None \<Rightarrow> 1 | Some n \<Rightarrow> n)
         (meta_ordering (filter_queryset q (list_get_queryset u rows)))"
    by (simp only: list_tasks_def)
  show "set (results (list_tasks u q rows)) \<subseteq> set (list_get_queryset u rows)"
    by (rule list_results_subset)
  show "role u \<noteq> ''admin'' \<longrightarrow> (\<forall>t \<in> set (results (list_tasks u q rows)). user_id t = uid u)"
    using list_results_own by blast
  show "count (list_tasks u (no_params\<lparr>q_page := p\<rparr>) rows) = length (list_get_queryset u rows)"
    by (rule list_count_unfiltered)
  show "(\<Union>n \<in> {1..}. set (results (list_tasks u (no_params\<lparr>q_page := Some n\<rparr>) rows)))
     = set (list_get_queryset u rows)"
    by (rule list_pages_cover)
qed

lemma role_user1: "role user1 \<noteq> ''admin''"
  by (simp add: user1_def)

theorem list_tasks_scoped_witness:
  "role user1 \<noteq> ''admin''
   \<and> task3 \<in> set (tasks test_store) \<and> user_id task3 \<noteq> uid user1
   \<and> task3 \<notin> set (results (list_tasks user1 no_params (tasks test_store)))"
proof -
  have other: "user_id task3 \<noteq> uid user1" by (simp add: task3_def user1_def)
  have "\<forall>t \<in> set (results (list_tasks user1 no_params (tasks test_store))). user_id t = uid user1"
    using list_tasks_scoped [of user1 "tasks test_store" no_params] role_user1 by blast
  with other have "task3 \<notin> set (results (list_tasks user1 no_params (tasks test_store)))"
    by blast
  moreover have "task3 \<in> set (tasks test_store)" by (simp add: test_store_def)
  ultimately show ?thesis using role_user1 other by blast
qed

section \<open>Tasks of other owners are hidden\<close>

lemma get_object_not_admin:
  assumes "role u \<noteq> ''admin''"
  shows "get_object m u pk rows
     = (case find (\<lambda>t. task_id t = pk \<and> user_id t = uid u) rows of
          None \<Rightarrow> Inl NotFound | Some obj \<Rightarrow> Inr obj)"
proof -
  have f: "find (\<lambda>t. task_id t = pk) (filter (\<lambda>t. user_id t = uid u) xs)
      = find (\<lambda>t. task_id t = pk \<and> user_id t = uid u) xs" for xs
    by (induction xs) auto
  show ?thesis
    using assms
    by (auto simp: get_object_def detail_get_queryset_def objects_filter_user_def f
        has_object_permission_def split: option.splits dest: find_Some_iff[THEN iffD1])
qed

lemma get_object_hidden:
  assumes "role u \<noteq> ''admin''" "\<forall>t \<in> set rows. task_id t = pk \<longrightarrow> user_id t \<noteq> uid u"
  shows "get_object m u pk rows = Inl NotFound"
proof -
  have "find (\<lambda>t. task_id t = pk \<and> user_id t = uid u) rows = None"
    using assms(2) by (auto simp: find_None_iff)
  then show ?thesis by (simp add: get_object_not_admin[OF assms(1)])
qed

lemma get_object_own_rows:
  assumes "role u \<noteq> ''admin''"
  shows "get_object m u pk (filter (\<lambda>t. user_id t = uid u) rows) = get_object m u pk rows"
proof -
  have eq: "find (\<lambda>t. task_id t = pk \<and> user_id t = uid u) (filter (\<lambda>t. user_id t = uid u) xs)
      = find (\<lambda>t. task_id t = pk \<and> user_id t = uid u) xs" for xs
    by (induction xs) auto
  show ?thesis by (simp add: get_object_not_admin[OF assms] eq)
qed

text \<open>
  C2. For every caller who is not an admin and every task of another owner, in a table
  whose primary keys are distinct, \<^verbatim>\<open>GET\<close>, \<^verbatim>\<open>PUT\<close>/\<^verbatim>\<open>PATCH\<close> and \<^verbatim>\<open>DELETE\<close> on that task's key
  answer \<open>NotFound\<close> and leave the table as it is, which is also the answer for a key that
  no row has; and the answer to a \<^verbatim>\<open>GET\<close> for any key is the answer that the caller would
  get if the table held the caller's own rows only.
\<close>

theorem hidden_task_not_found:
  assumes "role u \<noteq> ''admin''"
    and "t \<in> set (tasks s)" and "user_id t \<noteq> uid u"
    and "distinct (map task_id (tasks s))"
    and "absent \<notin> task_id ` set (tasks s)"
  shows "retrieve u (task_id t) s = Inl NotFound
       \<and> retrieve u absent s = Inl NotFound
       \<and> update m u (task_id t) p now s = (Inl NotFound, s)
       \<and> update m u absent p now s = (Inl NotFound, s)
       \<and> destroy u (task_id t) s = (Inl NotFound, s)
       \<and> destroy u absent s = (Inl NotFound, s)
       \<and> retrieve u pk s = retrieve u pk (s\<lparr>tasks := filter (\<lambda>x. user_id x = uid u) (tasks s)\<rparr>)"
proof -
  have same: "x = t" if "x \<in> set (tasks s)" "task_id x = task_id t" for x
    using that assms(2,4) by (meson distinct_map inj_onD)
  have h1: "get_object m' u (task_id t) (tasks s) = Inl NotFound" for m'
    using same assms(3) by (intro get_object_hidden[OF assms(1)]) blast
  have h2: "get_object m' u absent (tasks s) = Inl NotFound" for m'
    using assms(5) by (intro get_object_hidden[OF assms(1)]) blast
  show ?thesis
    by (simp add: retrieve_def update_def destroy_def h1 h2 get_object_own_rows[OF assms(1)])
qed

theorem hidden_task_not_found_witness:
  "role user1 \<noteq> ''admin'' \<and> task3 \<in> set (tasks test_store) \<and> user_id task3 \<noteq> uid user1
   \<and> distinct (map task_id (tasks test_store)) \<and> 7 \<notin> task_id ` set (tasks test_store)
   \<and> retrieve user1 (task_id task3) test_store = Inl NotFound
   \<and> retrieve user1 7 test_store = Inl NotFound
   \<and> update PUT user1 (task_id task3) update_data 9 test_store = (Inl NotFound, test_store)
   \<and> update PUT user1 7 update_data 9 test_store = (Inl NotFound, test_store)
   \<and> destroy user1 (task_id task3) test_store = (Inl NotFound, test_store)
   \<and> destroy user1 7 test_store = (Inl NotFound, test_store)"
proof -
  have a: "role user1 \<noteq> ''admin''" by (simp add: user1_def)
  have b: "task3 \<in> set (tasks test_store)" by (simp add: test_store_def)
  have c: "user_id task3 \<noteq> uid user1" by (simp add: task3_def user1_def)
  have d: "distinct (map task_id (tasks test_store))"
    by (simp add: test_store_def task1_def task2_def task3_def)
  have e: "7 \<notin> task_id ` set (tasks test_store)"
    by (simp add: test_store_def task1_def task2_def task3_def)
  show ?thesis
    using hidden_task_not_found [OF a b c d e, where m = PUT and p = update_data and now = 9 and pk = 0]
      a b c d e by blast
qed

section \<open>The owner of a task is its creator\<close>

lemma get_object_Inr:
  assumes "get_object m u pk rows = Inr obj"
  shows "obj \<in> set rows \<and> task_id obj = pk"
proof -
  from assms obtain x where x: "find (\<lambda>t. task_id t = pk) (detail_get_queryset u rows) = Some x"
    and "x = obj"
    by (auto simp: get_object_def split: option.splits if_splits)
  then have "obj \<in> set (detail_get_queryset u rows)" "task_id obj = pk"
    by (auto simp: find_Some_iff)
  then show ?thesis
    by (auto simp: detail_get_queryset_def objects_all_def objects_filter_user_def split: if_splits)
qed

lemma create_ignores_p_user: "create u (p\<lparr>p_user := x\<rparr>) now s = create u p now s"
  by (simp add: create_def is_valid_def)

lemma create_Inr:
  assumes "create u p now s = (Inr t, s')"
  shows "user_id t = uid u \<and> task_id t = next_id s \<and> tasks s' = tasks s @ [t]
         \<and> next_id s' = next_id s + 1"
  using assms by (auto simp: create_def Let_def split: if_splits)

lemma create_Inl:
  assumes "create u p now s = (Inl e, s')"
  shows "s' = s"
  using assms by (auto simp: create_def Let_def split: if_splits)

lemma update_store:
  "snd (update m u pk p now s) = s \<or>
   (\<exists>obj. obj \<in> set (tasks s) \<and> task_id obj = pk \<and>
      snd (update m u pk p now s)
        = s\<lparr>tasks := map (\<lambda>t. if task_id t = pk then apply_payload p now obj else t) (tasks s)\<rparr>)"
proof (cases "get_object m u pk (tasks s)")
  case (Inl e)
  then show ?thesis by (simp add: update_def)
next
  case (Inr obj)
  with get_object_Inr[OF Inr] show ?thesis
    by (auto simp: update_def Let_def)
qed

lemma apply_payload_keeps: "task_id (apply_payload p now obj) = task_id obj"
  "user_id (apply_payload p now obj) = user_id obj"
  "created_at (apply_payload p now obj) = created_at obj"
  by (simp_all add: apply_payload_def)

lemma destroy_store:
  "snd (destroy u pk s) = s \<or> snd (destroy u pk s) = s\<lparr>tasks := filter (\<lambda>t. task_id t \<noteq> pk) (tasks s)\<rparr>"
  by (cases "get_object DELETE u pk (tasks s)") (simp_all add: destroy_def)

lemma update_keeps_owner:
  assumes "distinct (map task_id (tasks s))"
  shows "map (\<lambda>t. (task_id t, user_id t)) (tasks (snd (update m u pk p now s)))
       = map (\<lambda>t. (task_id t, user_id t)) (tasks s)"
proof -
  consider "snd (update m u pk p now s) = s"
    | obj where "obj \<in> set (tasks s)" "task_id obj = pk"
      "snd (update m u pk p now s)
        = s\<lparr>tasks := map (\<lambda>t. if task_id t = pk then apply_payload p now obj else t) (tasks s)\<rparr>"
    using update_store by blast
  then show ?thesis
  proof cases
    case 1
    then show ?thesis by simp
  next
    case 2
    have inj: "inj_on task_id (set (tasks s))"
      using assms by (simp add: distinct_map)
    have "t = obj" if "t \<in> set (tasks s)" "task_id t = pk" for t
      using inj_onD[OF inj, of t obj] that 2(1,2) by simp
    then show ?thesis
      by (auto simp: 2(3) apply_payload_keeps 2(2))
  qed
qed

lemma step_owners_recorded:
  assumes "owners_recorded sc"
  shows "owners_recorded (step r sc)"
proof (cases sc)
  case (Pair s c)
  note inv = assms[unfolded Pair owners_recorded_def, simplified]
  show ?thesis
  proof (cases r)
    case (CreateTask u p now)
    show ?thesis
    proof (cases "create u p now s")
      case (Pair res s')
      show ?thesis
      proof (cases res)
        case (Inl e)
        with Pair create_Inl have "s' = s" by blast
        with Inl Pair \<open>sc = (s, c)\<close> CreateTask assms show ?thesis by simp
      next
        case (Inr t)
        from create_Inr[OF Pair[unfolded Inr]] inv
        show ?thesis
          unfolding \<open>sc = (s, c)\<close> CreateTask owners_recorded_def
          by (auto simp: Pair Inr)
      qed
    qed
  next
    case (UpdateTask m u pk p now)
    consider "snd (update m u pk p now s) = s"
      | obj where "obj \<in> set (tasks s)" "task_id obj = pk"
        "snd (update m u pk p now s)
          = s\<lparr>tasks := map (\<lambda>t. if task_id t = pk then apply_payload p now obj else t) (tasks s)\<rparr>"
      using update_store by blast
    then show ?thesis
    proof cases
      case 1
      with assms show ?thesis by (simp add: \<open>sc = (s, c)\<close> UpdateTask)
    next
      case 2
      with inv show ?thesis
        unfolding \<open>sc = (s, c)\<close> UpdateTask owners_recorded_def
        by (auto simp: apply_payload_keeps)
    qed
  next
    case (DeleteTask u pk)
    from destroy_store[of u pk s] inv show ?thesis
      unfolding \<open>sc = (s, c)\<close> DeleteTask owners_recorded_def
      by auto
  qed
qed

lemma run_owners_recorded: "owners_recorded sc \<Longrightarrow> owners_recorded (run rs sc)"
  by (induction rs arbitrary: sc) (simp_all add: step_owners_recorded)

lemma owners_recorded_empty: "owners_recorded (empty_store, Map.empty)"
  by (simp add: owners_recorded_def empty_store_def)


text \<open>
  C5. Creating a task sets its owner to the caller, whatever owner the client sends along;
  an update leaves the key and the owner of every row as they were (the primary keys being
  distinct); and after any history of create, update and delete requests that starts from
  the empty table, the owner of every task is the caller whose request created it.
\<close>

theorem owner_is_creator:
  "create u (p\<lparr>p_user := x\<rparr>) now s = create u p now s
   \<and> (create u p now s = (Inr t, s') \<longrightarrow> user_id t = uid u)
   \<and> (distinct (map task_id (tasks s)) \<longrightarrow>
        map (\<lambda>t. (task_id t, user_id t)) (tasks (snd (update m u pk p now s)))
          = map (\<lambda>t. (task_id t, user_id t)) (tasks s))
   \<and> (\<forall>t \<in> set (tasks (fst (run rs (empty_store, Map.empty)))).
        snd (run rs (empty_store, Map.empty)) (task_id t) = Some (user_id t))"
proof (intro conjI)
  show "create u (p\<lparr>p_user := x\<rparr>) now s = create u p now s"
    by (rule create_ignores_p_user)
  show "create u p now s = (Inr t, s') \<longrightarrow> user_id t = uid u"
    using create_Inr by blast
  show "distinct (map task_id (tasks s)) \<longrightarrow>
        map (\<lambda>t. (task_id t, user_id t)) (tasks (snd (update m u pk p now s)))
          = map (\<lambda>t. (task_id t, user_id t)) (tasks s)"
    using update_keeps_owner by blast
  have "owners_recorded (run rs (empty_store, Map.empty))"
    by (rule run_owners_recorded[OF owners_recorded_empty])
  then show "\<forall>t \<in> set (tasks (fst (run rs (empty_store, Map.empty)))).
        snd (run rs (empty_store, Map.empty)) (task_id t) = Some (user_id t)"
    by (simp add: owners_recorded_def)
qed

lemma create_example:
  "create user1 new_task_data 7 empty_store = (Inr created_task, \<lparr>tasks = [created_task], next_id = 2\<rparr>)"
  by (simp add: create_def is_valid_def new_task_data_def created_task_def empty_store_def
      user1_def Let_def)

lemma distinct_test_store: "distinct (map task_id (tasks test_store))"
  by (simp add: test_store_def task1_def task2_def task3_def)

lemma run_history:
  "tasks (fst (run history (empty_store, Map.empty)))
     = [created_task\<lparr>title := ''Updated Task Title'', description := ''Updated description'',
          completed := True, updated_at := 8\<rparr>]"
  by (simp add: history_def create_example update_def get_object_def detail_get_queryset_def
      objects_all_def has_object_permission_def admin_user_def created_task_def is_valid_def
      update_data_def apply_payload_def Let_def)

theorem owner_is_creator_witness:
  "create user1 new_task_data 7 empty_store
     = (Inr created_task, \<lparr>tasks = [created_task], next_id = 2\<rparr>)
   \<and> p_user new_task_data = Some (uid user2) \<and> user_id created_task = uid user1
   \<and> distinct (map task_id (tasks test_store))
   \<and> map (\<lambda>t. (task_id t, user_id t)) (tasks (snd (update PUT admin_user 1 update_data 8 test_store)))
       = [(1, 1), (2, 1), (3, 2)]
   \<and> map user_id (tasks (fst (run history (empty_store, Map.empty)))) = [uid user1]
   \<and> snd (run history (empty_store, Map.empty)) 1 = Some (uid user1)"
proof -
  note inst1 = owner_is_creator [where u = user1 and p = new_task_data and now = 7
      and s = empty_store and t = created_task
      and s' = "\<lparr>tasks = [created_task], next_id = 2\<rparr>" and rs = history]
  note inst2 = owner_is_creator [where u = admin_user and p = update_data and now = 8
      and s = test_store and m = PUT and pk = 1]
  have a: "user_id created_task = uid user1" using inst1 create_example by blast
  have b: "map (\<lambda>t. (task_id t, user_id t)) (tasks (snd (update PUT admin_user 1 update_data 8 test_store)))
       = [(1, 1), (2, 1), (3, 2)]"
    using inst2 distinct_test_store
    by (simp add: test_store_def task1_def task2_def task3_def)
  have c: "map user_id (tasks (fst (run history (empty_store, Map.empty)))) = [uid user1]"
    by (simp add: run_history created_task_def user1_def)
  have "snd (run history (empty_store, Map.empty)) 1 = Some (uid user1)"
    using inst1 by (simp add: run_history created_task_def user1_def)
  with a b c create_example distinct_test_store show ?thesis
    by (simp add: new_task_data_def user2_def)
qed

section \<open>Statistics over the scoped set\<close>

lemma rate_of_Inr:
  "rate_of c t = Inr (if t = 0 then 0
     else py_round (py_mul (float64 (of_nat c / of_nat t)) 100) 2)"
  by (simp add: rate_of_def py_truediv_def)

lemma stats_of_eq:
  "stats_of qs = Inr \<lparr>total_tasks = length qs,
      completed_tasks = length (filter completed qs),
      pending_tasks = length qs - length (filter completed qs),
      completion_rate =
        (if length qs = 0 then 0
         else py_round (py_mul (float64 (of_nat (length (filter completed qs))
                                          / of_nat (length qs))) 100) 2)\<rparr>"
  by (simp add: stats_of_def rate_of_Inr Let_def)

lemma task_stats_test:
  "task_stats user1 (tasks test_store)
     = Inr \<lparr>total_tasks = 2, completed_tasks = 1, pending_tasks = 1, completion_rate = 50\<rparr>"
  by code_simp

lemma task_stats_empty:
  "task_stats user1 []
     = Inr \<lparr>total_tasks = 0, completed_tasks = 0, pending_tasks = 0, completion_rate = 0\<rparr>"
  by code_simp

lemma rate_one_third: "rate_of 1 3 = Inr (2345390243441541 / 70368744177664)"
  by code_simp

subsection \<open>The error of the binary64 operations\<close>

lemma pow2_powi: "pow2 e = 2 powi e"
  by (simp add: pow2_def power_int_def field_simps)

lemma pow2_pos: "0 < pow2 e"
  by (simp add: pow2_powi)

lemma pow2_mono: "a \<le> b \<Longrightarrow> pow2 a \<le> pow2 b"
  by (simp add: pow2_powi power_int_increasing)

lemma pow2_nat: "0 \<le> e \<Longrightarrow> pow2 e = 2 ^ nat e"
  by (simp add: pow2_def)

lemma pow2_diff: "pow2 (a - b) = pow2 a / pow2 b"
  by (simp add: pow2_powi power_int_diff)

lemma round_half_even_err: "\<bar>of_int (round_half_even r) - r\<bar> \<le> 1 / 2"
proof -
  have "of_int \<lfloor>r\<rfloor> \<le> r" "r < of_int \<lfloor>r\<rfloor> + 1" by linarith+
  then show ?thesis
    unfolding round_half_even_def Let_def by (simp split: if_splits)
qed


lemma round_half_even_unique:
  assumes "\<bar>r - of_int n\<bar> < 1 / 2"
  shows "round_half_even r = n"
proof -
  have fl: "of_int \<lfloor>r\<rfloor> \<le> r" "r < of_int \<lfloor>r\<rfloor> + 1" by linarith+
  have lo: "of_int (n - 1) \<le> r" and hi: "r < of_int (n + 1)"
    using assms by (simp_all add: abs_if split: if_splits)
  have "n - 1 \<le> \<lfloor>r\<rfloor>" using lo by (simp only: le_floor_iff)
  moreover have "\<lfloor>r\<rfloor> < n + 1" using hi by (simp only: floor_less_iff)
  ultimately consider "\<lfloor>r\<rfloor> = n" | "\<lfloor>r\<rfloor> = n - 1" by linarith
  then show ?thesis
  proof cases
    case 1
    with assms fl show ?thesis
      unfolding round_half_even_def Let_def by (simp add: abs_if split: if_splits)
  next
    case 2
    with assms fl show ?thesis
      unfolding round_half_even_def Let_def by (simp add: abs_if split: if_splits)
  qed
qed

lemma round_half_even_nonneg: "0 \<le> r \<Longrightarrow> 0 \<le> round_half_even r"
  unfolding round_half_even_def Let_def by (simp split: if_splits)


lemma floor_log2_le:
  assumes "0 < q"
  shows "pow2 (floor_log2 q) \<le> q"
proof -
  obtain a b where ab: "quotient_of q = (a, b)" by (cases "quotient_of q")
  have b: "0 < b" using ab by (rule quotient_of_denom_pos)
  have q: "q = of_int a / of_int b" using ab by (rule quotient_of_div)
  have a: "0 < a" using assms b by (simp add: q zero_less_divide_iff)
  let ?e0 = "bitlen a - bitlen b"
  have fl: "floor_log2 q = (if q < pow2 ?e0 then ?e0 - 1 else ?e0)"
    by (simp add: floor_log2_def ab Let_def)
  show ?thesis
  proof (cases "q < pow2 ?e0")
    case False
    then show ?thesis by (simp add: fl)
  next
    case True
    have la: "1 \<le> bitlen a" using a bitlen_eq_zero_iff[of a] bitlen_nonneg[of a] by linarith
    have lb: "0 \<le> bitlen b" by (rule bitlen_nonneg)
    have ba: "(2::int) ^ nat (bitlen a - 1) \<le> a" using bitlen_bounds[OF a] by simp
    have bb: "b < (2::int) ^ nat (bitlen b)" using bitlen_bounds[OF b] by simp
    have ra: "(2::rat) ^ nat (bitlen a - 1) \<le> of_int a"
      using ba by (metis of_int_le_iff of_int_numeral of_int_power)
    have rb: "(of_int b :: rat) \<le> 2 ^ nat (bitlen b)"
      using bb by (metis less_imp_le of_int_le_iff of_int_numeral of_int_power)
    have "pow2 (?e0 - 1) = pow2 (bitlen a - 1) / pow2 (bitlen b)"
      by (simp add: pow2_diff[symmetric] algebra_simps)
    also have "\<dots> = 2 ^ nat (bitlen a - 1) / 2 ^ nat (bitlen b)"
      using la lb by (simp add: pow2_nat)
    also have "\<dots> \<le> of_int a / of_int b"
      using ra rb a b by (intro frac_le) simp_all
    finally have "pow2 (?e0 - 1) \<le> q" unfolding q[symmetric] .
    moreover have "floor_log2 q = ?e0 - 1" using True by (simp only: fl if_True)
    ultimately show ?thesis by simp
  qed
qed

lemma floor_log2_ub:
  assumes "0 < q" "q < pow2 (E + 1)"
  shows "floor_log2 q \<le> E"
proof (rule ccontr)
  assume "\<not> floor_log2 q \<le> E"
  then have "E + 1 \<le> floor_log2 q" by simp
  then have "pow2 (E + 1) \<le> pow2 (floor_log2 q)" by (rule pow2_mono)
  also have "\<dots> \<le> q" by (rule floor_log2_le[OF assms(1)])
  finally show False using assms(2) by simp
qed

lemma float64_nonneg: "0 \<le> q \<Longrightarrow> 0 \<le> float64 q"
  using pow2_pos round_half_even_nonneg
  by (simp add: float64_def Let_def less_imp_le)

lemma abs_scaled:
  assumes "0 < (u::rat)"
  shows "\<bar>k * u - q\<bar> = \<bar>k - q / u\<bar> * u"
proof -
  have "k * u - q = (k - q / u) * u" using assms by (simp add: field_simps)
  then have "\<bar>k * u - q\<bar> = \<bar>k - q / u\<bar> * \<bar>u\<bar>" by (simp only: abs_mult)
  then show ?thesis using assms by simp
qed

lemma float64_err:
  assumes "0 < q" "q < pow2 (E + 1)" "- 1022 \<le> E"
  shows "\<bar>float64 q - q\<bar> \<le> pow2 (E - 53)"
proof -
  let ?e = "max (floor_log2 \<bar>q\<bar>) (- 1022)"
  let ?u = "pow2 (?e - 52)"
  have e: "?e \<le> E" using floor_log2_ub[OF assms(1,2)] assms(1,3) by simp
  have u: "0 < ?u" by (rule pow2_pos)
  have f: "float64 q = of_int (round_half_even (q / ?u)) * ?u"
    using assms(1) by (simp add: float64_def Let_def)
  have "\<bar>float64 q - q\<bar> = \<bar>of_int (round_half_even (q / ?u)) - q / ?u\<bar> * ?u"
    unfolding f by (rule abs_scaled[OF u])
  also have "\<dots> \<le> 1 / 2 * ?u"
    using round_half_even_err[of "q / ?u"] u by (intro mult_right_mono) simp_all
  also have "\<dots> = pow2 (?e - 53)"
    using pow2_diff[of "?e - 52" 1] by (simp add: pow2_def)
  also have "\<dots> \<le> pow2 (E - 53)" using e by (intro pow2_mono) simp
  finally show ?thesis .
qed


lemma float64_100: "float64 (of_int 100) = 100"
  by code_simp

lemma float64_err0:
  assumes "0 \<le> q" "q < pow2 (E + 1)" "- 1022 \<le> E"
  shows "\<bar>float64 q - q\<bar> \<le> pow2 (E - 53)"
proof (cases "q = 0")
  case True
  then show ?thesis using pow2_pos[of "E - 53"] by (simp add: float64_def)
next
  case False
  with assms(1) have "0 < q" by simp
  then show ?thesis using assms(2,3) by (rule float64_err)
qed

lemma percentage_err:
  assumes "c \<le> t" "0 < t"
  shows "\<bar>py_mul (float64 (of_nat c / of_nat t)) 100 - 100 * (of_nat c / of_nat t)\<bar>
         \<le> 164 / 2 ^ 53"
proof -
  define q :: rat where "q = of_nat c / of_nat t"
  define x1 where "x1 = float64 q"
  define z where "z = x1 * 100"
  define d1 :: rat where "d1 = 1 / 2 ^ 53"
  define d2 :: rat where "d2 = 1 / 2 ^ 47"
  have d: "0 < d1" "d1 < 1 / 100" "100 * d1 + d2 = 164 / 2 ^ 53"
    by (simp_all add: d1_def d2_def)
  have q0: "0 \<le> q" by (simp add: q_def)
  have q1: "q \<le> 1" using assms by (simp add: q_def)
  have p1: "pow2 (0 + 1) = 2" and p53: "pow2 (0 - 53) = d1"
    and p7: "pow2 (6 + 1) = 128" and p47: "pow2 (6 - 53) = d2"
    by (simp_all add: pow2_def d1_def d2_def)
  have "q < 2" using q1 by simp
  then have "q < pow2 (0 + 1)" by (simp only: p1)
  from float64_err0[OF q0 this] have e1: "\<bar>x1 - q\<bar> \<le> d1"
    by (simp only: p53 x1_def)
  have x0: "0 \<le> x1" unfolding x1_def using q0 by (rule float64_nonneg)
  have x1: "x1 \<le> 1 + d1" using e1 q1 unfolding abs_le_iff by linarith
  have z0: "0 \<le> z" using x0 by (simp add: z_def)
  have "z < 128" using x1 d(2) unfolding z_def by linarith
  then have "z < pow2 (6 + 1)" by (simp only: p7)
  from float64_err0[OF z0 this] have e2: "\<bar>float64 z - z\<bar> \<le> d2"
    by (simp only: p47)
  have e3: "\<bar>z - 100 * q\<bar> \<le> 100 * d1"
    using e1 unfolding abs_le_iff z_def by linarith
  have m: "py_mul x1 100 = float64 z"
    by (simp only: py_mul_def float64_100 z_def)
  have "\<bar>float64 z - 100 * q\<bar> \<le> 100 * d1 + d2"
    using e2 e3 unfolding abs_le_iff by linarith
  then have "\<bar>py_mul x1 100 - 100 * q\<bar> \<le> 164 / 2 ^ 53"
    by (simp only: m d(3))
  then show ?thesis by (simp only: x1_def q_def)
qed


lemma rate_of_value:
  assumes "0 < t"
  shows "rate_of c t
    = Inr (float64 (of_int (round_half_even
             (py_mul (float64 (of_nat c / of_nat t)) 100 * 100)) / 100))"
  using assms by (simp add: rate_of_def py_truediv_def py_round_def)

lemma rate_of_exact:
  assumes "c \<le> t" "0 < t"
    and "\<bar>10000 * (of_nat c / of_nat t) - of_int n\<bar> \<le> (1 / 2 - 1 / 2 ^ 38 :: rat)"
  shows "rate_of c t = Inr (float64 (of_int n / 100))"
proof -
  define x where "x = py_mul (float64 (of_nat c / of_nat t)) 100"
  define q :: rat where "q = of_nat c / of_nat t"
  define d :: rat where "d = 164 / 2 ^ 53"
  define m :: rat where "m = 1 / 2 ^ 38"
  have dm: "100 * d < m" by (simp add: d_def m_def)
  have e: "\<bar>x - 100 * q\<bar> \<le> d"
    unfolding x_def q_def d_def by (rule percentage_err[OF assms(1,2)])
  have h: "\<bar>10000 * q - of_int n\<bar> \<le> 1 / 2 - m"
    using assms(3) by (simp only: q_def m_def)
  have e': "- d \<le> x - 100 * q" "x - 100 * q \<le> d"
    using e unfolding abs_le_iff by linarith+
  have h': "- (1 / 2 - m) \<le> 10000 * q - of_int n" "10000 * q - of_int n \<le> 1 / 2 - m"
    using h unfolding abs_le_iff by linarith+
  have "x * 100 - of_int n < 1 / 2" "- (1 / 2) < x * 100 - of_int n"
    using e' h' dm by linarith+
  then have "\<bar>x * 100 - of_int n\<bar> < 1 / 2"
    unfolding abs_less_iff by linarith
  then have "round_half_even (x * 100) = n" by (rule round_half_even_unique)
  then show ?thesis by (simp only: rate_of_value[OF assms(2)] x_def)
qed


lemma rate_of_near:
  assumes "c \<le> t" "0 < t"
  shows "\<exists>k. rate_of c t = Inr (float64 (of_int k / 100))
     \<and> \<bar>of_int k / 100 - 100 * (of_nat c / of_nat t)\<bar> \<le> (1 / 200 + 1 / 2 ^ 45 :: rat)"
proof -
  define x where "x = py_mul (float64 (of_nat c / of_nat t)) 100"
  define q :: rat where "q = of_nat c / of_nat t"
  define d :: rat where "d = 164 / 2 ^ 53"
  define m :: rat where "m = 1 / 2 ^ 45"
  define k where "k = round_half_even (x * 100)"
  have dm: "d \<le> m" by (simp add: d_def m_def)
  have e: "\<bar>x - 100 * q\<bar> \<le> d"
    unfolding x_def q_def d_def by (rule percentage_err[OF assms(1,2)])
  have r: "\<bar>of_int k - x * 100\<bar> \<le> 1 / 2"
    unfolding k_def by (rule round_half_even_err)
  have e': "- d \<le> x - 100 * q" "x - 100 * q \<le> d"
    using e unfolding abs_le_iff by linarith+
  have r': "- (1 / 2) \<le> of_int k - x * 100" "of_int k - x * 100 \<le> 1 / 2"
    using r unfolding abs_le_iff by linarith+
  have "of_int k / 100 - 100 * q \<le> 1 / 200 + m" "- (1 / 200 + m) \<le> of_int k / 100 - 100 * q"
    using e' r' dm by linarith+
  then have "\<bar>of_int k / 100 - 100 * q\<bar> \<le> 1 / 200 + m"
    unfolding abs_le_iff by linarith
  moreover have "rate_of c t = Inr (float64 (of_int k / 100))"
    by (simp only: rate_of_value[OF assms(2)] x_def k_def)
  ultimately show ?thesis unfolding q_def m_def by blast
qed


lemma tie_mod:
  fixes C T n :: int
  assumes "0 < T" "2 * \<bar>n * T - C\<bar> = T"
  shows "2 * (C mod T) = T"
proof -
  have "2 * C = T + (n - 1) * (2 * T) \<or> 2 * C = T + n * (2 * T)"
    using assms(2) by (auto simp: abs_if algebra_simps split: if_splits)
  then have "(2 * C) mod (2 * T) = T mod (2 * T)"
    by (metis mod_mult_self1)
  also have "\<dots> = T" using assms(1) by simp
  finally show ?thesis by (simp only: mult_mod_right)
qed

lemma rate_of_exact_rate:
  assumes "c \<le> t" "0 < t" "t \<le> 2 ^ 37" "2 * (10000 * c mod t) \<noteq> t"
  shows "rate_of c t = Inr (float64 (exact_rate c t))"
proof -
  define r :: rat where "r = 10000 * (of_nat c / of_nat t)"
  define n where "n = round_half_even r"
  define M :: int where "M = n * int t - 10000 * int c"
  have t: "0 < (of_nat t :: rat)" using assms(2) by simp
  have Mr: "of_int M = (of_int n - r) * of_nat t"
    using assms(2) by (simp add: M_def r_def field_simps)
  have "\<bar>of_int n - r\<bar> \<le> 1 / 2" unfolding n_def by (rule round_half_even_err)
  then have "\<bar>of_int n - r\<bar> * of_nat t \<le> 1 / 2 * of_nat t"
    using t by (intro mult_right_mono) simp_all
  then have "\<bar>(of_int M :: rat)\<bar> \<le> of_nat t / 2"
    using t by (simp add: Mr abs_mult)
  then have "(of_int (2 * \<bar>M\<bar>) :: rat) \<le> of_int (int t)" by simp
  then have le: "2 * \<bar>M\<bar> \<le> int t" by (simp only: of_int_le_iff)
  have ne: "2 * \<bar>M\<bar> \<noteq> int t"
  proof
    assume "2 * \<bar>M\<bar> = int t"
    then have "2 * ((10000 * int c) mod int t) = int t"
      using assms(2) by (intro tie_mod[where n = n]) (simp_all add: M_def)
    then have "int (2 * (10000 * c mod t)) = int t"
      by (simp add: zmod_int)
    then show False using assms(4) by (simp only: of_nat_eq_iff)
  qed
  from le ne have "2 * \<bar>M\<bar> \<le> int t - 1" by simp
  then have "(of_int (2 * \<bar>M\<bar>) :: rat) \<le> of_int (int t - 1)" by (simp only: of_int_le_iff)
  then have m2: "2 * \<bar>(of_int M :: rat)\<bar> \<le> of_nat t - 1" by simp
  have "\<bar>of_int n - r\<bar> = \<bar>(of_int M :: rat)\<bar> / of_nat t"
    using t by (simp add: Mr abs_mult)
  also have "\<dots> \<le> ((of_nat t - 1) / 2) / of_nat t"
    using m2 t by (intro divide_right_mono) simp_all
  also have "\<dots> = 1 / 2 - 1 / (2 * of_nat t)"
    using t by (simp add: field_simps)
  also have "\<dots> \<le> 1 / 2 - 1 / 2 ^ 38"
  proof -
    have "(of_nat t :: rat) \<le> 2 ^ 37" using assms(3) by (metis of_nat_le_iff of_nat_numeral of_nat_power)
    then have "2 * (of_nat t :: rat) \<le> 2 ^ 38" by simp
    then have "1 / (2 ^ 38 :: rat) \<le> 1 / (2 * of_nat t)"
      using t by (intro divide_left_mono) simp_all
    then show ?thesis by simp
  qed
  finally have "\<bar>r - of_int n\<bar> \<le> 1 / 2 - 1 / 2 ^ 38" by (simp only: abs_minus_commute)
  then have e1: "rate_of c t = Inr (float64 (of_int n / 100))"
    unfolding r_def by (rule rate_of_exact[OF assms(1,2)])
  have e2: "exact_rate c t = of_int n / 100"
    using assms(2) by (simp add: exact_rate_def n_def r_def algebra_simps)
  show ?thesis unfolding e2 by (rule e1)
qed


lemma rate_of_result_err:
  assumes "c \<le> t" "0 < t"
  shows "\<exists>r. rate_of c t = Inr r \<and> \<bar>r - 100 * (of_nat c / of_nat t)\<bar> \<le> (1 / 200 + 1 / 2 ^ 44 :: rat)"
proof -
  define q :: rat where "q = of_nat c / of_nat t"
  from rate_of_near[OF assms] obtain k where k: "rate_of c t = Inr (float64 (of_int k / 100))"
    and kq: "\<bar>of_int k / 100 - 100 * q\<bar> \<le> 1 / 200 + 1 / 2 ^ 45"
    unfolding q_def by blast
  define y :: rat where "y = of_int k / 100"
  define m :: rat where "m = 1 / 2 ^ 45"
  define d :: rat where "d = 1 / 2 ^ 47"
  have md: "0 < m" "m < 1 / 1000" "m + d \<le> 1 / 2 ^ 44" by (simp_all add: m_def d_def)
  have q0: "0 \<le> q" by (simp add: q_def)
  have q1: "q \<le> 1" using assms by (simp add: q_def)
  have kq': "- (1 / 200 + m) \<le> y - 100 * q" "y - 100 * q \<le> 1 / 200 + m"
    using kq unfolding abs_le_iff y_def m_def by linarith+
  have "- 1 < (of_int k :: rat)" using kq'(1) q0 md unfolding y_def by linarith
  then have "0 \<le> k" by linarith
  then have y0: "0 \<le> y" by (simp add: y_def)
  have "y < 128" using kq'(2) q1 md by linarith
  then have "y < pow2 (6 + 1)" by (simp add: pow2_def)
  from float64_err0[OF y0 this] have "\<bar>float64 y - y\<bar> \<le> d"
    by (simp add: pow2_def d_def)
  then have "- d \<le> float64 y - y" "float64 y - y \<le> d"
    unfolding abs_le_iff by linarith+
  with kq' md have "float64 y - 100 * q \<le> 1 / 200 + 1 / 2 ^ 44"
    "- (1 / 200 + 1 / 2 ^ 44) \<le> float64 y - 100 * q" by linarith+
  then have "\<bar>float64 y - 100 * q\<bar> \<le> 1 / 200 + 1 / 2 ^ 44"
    unfolding abs_le_iff by linarith
  with k show ?thesis unfolding y_def q_def by blast
qed

text \<open>
  C4, as stated, fails at such a half-way point. With 23 of 160 tasks completed the
  percentage is 14.375, which rounds to 14.38 (to the even neighbour and upwards alike);
  the product computed in binary64 lies just below 14.375, and \<^verbatim>\<open>task_stats\<close> answers the
  binary64 number nearest to 14.37.
\<close>

theorem completion_rate_counterexample:
  "task_stats user1 stats_tasks
     = Inr \<lparr>total_tasks = 160, completed_tasks = 23, pending_tasks = 137,
            completion_rate = float64 (1437 / 100)\<rparr>
   \<and> exact_rate 23 160 = 1438 / 100
   \<and> float64 (1437 / 100) \<noteq> float64 (1438 / 100)
   \<and> float64 (1437 / 100) \<noteq> 1438 / 100"
  by code_simp


lemma stats_of_rate:
  assumes "rate_of (length (filter completed qs)) (length qs) = Inr r"
  shows "stats_of qs = Inr \<lparr>total_tasks = length qs,
      completed_tasks = length (filter completed qs),
      pending_tasks = length qs - length (filter completed qs),
      completion_rate = r\<rparr>"
  using assms by (simp add: stats_of_def Let_def)

text \<open>
  C4, as amended. For every caller, \<^verbatim>\<open>task_stats\<close> answers without an error, over the
  caller's scoped set with no filter: the total is the size of the set, the completed
  count is the number of its completed tasks, and pending is the total minus the completed
  count (the two add up to the total). The completion rate is 0 for an empty set.
  Otherwise it is the binary64 number nearest to a decimal with two places that lies
  within \<^verbatim>\<open>0.005 + 2^-45\<close> of \<^verbatim>\<open>completed / total * 100\<close>, and it differs from that
  percentage by \<^verbatim>\<open>0.005 + 2^-44\<close> at most. It is the binary64 number nearest to \<^verbatim>\<open>n / 100\<close>
  whenever \<^verbatim>\<open>10000 * completed / total\<close> is within \<^verbatim>\<open>1/2 - 2^-38\<close> of the integer \<^verbatim>\<open>n\<close>; so
  for every total up to \<^verbatim>\<open>2^37\<close> it is the binary64 number nearest to the percentage
  rounded to two places, unless the percentage lies exactly half-way between two such
  decimals.
\<close>

theorem task_stats_rate:
  assumes "qs = stats_queryset u rows" and "T = length qs"
    and "C = length (filter completed qs)"
  shows "qs = (if role u = ''admin'' then rows else filter (\<lambda>t. user_id t = uid u) rows)
     \<and> C + (T - C) = T
     \<and> (\<exists>r. task_stats u rows
              = Inr \<lparr>total_tasks = T, completed_tasks = C, pending_tasks = T - C,
                     completion_rate = r\<rparr>
          \<and> (T = 0 \<longrightarrow> r = 0)
          \<and> (0 < T \<longrightarrow>
                (\<exists>k. r = float64 (of_int k / 100)
                   \<and> \<bar>of_int k / 100 - 100 * (of_nat C / of_nat T)\<bar> \<le> (1 / 200 + 1 / 2 ^ 45 :: rat))
                \<and> \<bar>r - 100 * (of_nat C / of_nat T)\<bar> \<le> 1 / 200 + 1 / 2 ^ 44)
          \<and> (\<forall>n. 0 < T \<and> \<bar>10000 * (of_nat C / of_nat T) - of_int n\<bar> \<le> (1 / 2 - 1 / 2 ^ 38 :: rat)
                \<longrightarrow> r = float64 (of_int n / 100))
          \<and> (0 < T \<and> T \<le> 2 ^ 37 \<and> 2 * (10000 * C mod T) \<noteq> T
                \<longrightarrow> r = float64 (exact_rate C T)))"
proof (intro conjI)
  show "qs = (if role u = ''admin'' then rows else filter (\<lambda>t. user_id t = uid u) rows)"
    by (simp add: assms(1) stats_queryset_def objects_all_def objects_filter_user_def)
  have CT: "C \<le> T" unfolding assms(2,3) by (rule length_filter_le)
  then show "C + (T - C) = T" by simp
  obtain r where r: "rate_of C T = Inr r"
    by (cases "T = 0") (simp_all add: rate_of_def py_truediv_def)
  have st: "task_stats u rows
      = Inr \<lparr>total_tasks = T, completed_tasks = C, pending_tasks = T - C, completion_rate = r\<rparr>"
    unfolding task_stats_def assms(1)[symmetric] assms(2,3)
    by (rule stats_of_rate) (use r in \<open>simp only: assms(2,3)\<close>)
  have zero: "T = 0 \<longrightarrow> r = 0"
    using r by (auto simp: rate_of_def)
  have near: "0 < T \<longrightarrow>
      (\<exists>k. r = float64 (of_int k / 100)
         \<and> \<bar>of_int k / 100 - 100 * (of_nat C / of_nat T)\<bar> \<le> (1 / 200 + 1 / 2 ^ 45 :: rat))
      \<and> \<bar>r - 100 * (of_nat C / of_nat T)\<bar> \<le> 1 / 200 + 1 / 2 ^ 44"
  proof
    assume T: "0 < T"
    from rate_of_near[OF CT T] r
    have a: "\<exists>k. r = float64 (of_int k / 100)
         \<and> \<bar>of_int k / 100 - 100 * (of_nat C / of_nat T)\<bar> \<le> (1 / 200 + 1 / 2 ^ 45 :: rat)"
      by auto
    from rate_of_result_err[OF CT T] r
    have b: "\<bar>r - 100 * (of_nat C / of_nat T)\<bar> \<le> 1 / 200 + 1 / 2 ^ 44"
      by auto
    from a b show "(\<exists>k. r = float64 (of_int k / 100)
         \<and> \<bar>of_int k / 100 - 100 * (of_nat C / of_nat T)\<bar> \<le> (1 / 200 + 1 / 2 ^ 45 :: rat))
      \<and> \<bar>r - 100 * (of_nat C / of_nat T)\<bar> \<le> 1 / 200 + 1 / 2 ^ 44" ..
  qed
  have exact: "\<forall>n. 0 < T \<and> \<bar>10000 * (of_nat C / of_nat T) - of_int n\<bar> \<le> (1 / 2 - 1 / 2 ^ 38 :: rat)
      \<longrightarrow> r = float64 (of_int n / 100)"
  proof (intro allI impI)
    fix n assume "0 < T \<and> \<bar>10000 * (of_nat C / of_nat T) - of_int n\<bar> \<le> (1 / 2 - 1 / 2 ^ 38 :: rat)"
    then have "rate_of C T = Inr (float64 (of_int n / 100))"
      using rate_of_exact[OF CT] by blast
    with r show "r = float64 (of_int n / 100)" by simp
  qed
  have spec: "0 < T \<and> T \<le> 2 ^ 37 \<and> 2 * (10000 * C mod T) \<noteq> T \<longrightarrow> r = float64 (exact_rate C T)"
  proof
    assume "0 < T \<and> T \<le> 2 ^ 37 \<and> 2 * (10000 * C mod T) \<noteq> T"
    then have "rate_of C T = Inr (float64 (exact_rate C T))"
      using rate_of_exact_rate[OF CT] by blast
    with r show "r = float64 (exact_rate C T)" by simp
  qed
  from st zero near exact spec
  show "\<exists>r. task_stats u rows
              = Inr \<lparr>total_tasks = T, completed_tasks = C, pending_tasks = T - C,
                     completion_rate = r\<rparr>
          \<and> (T = 0 \<longrightarrow> r = 0)
          \<and> (0 < T \<longrightarrow>
                (\<exists>k. r = float64 (of_int k / 100)
                   \<and> \<bar>of_int k / 100 - 100 * (of_nat C / of_nat T)\<bar> \<le> (1 / 200 + 1 / 2 ^ 45 :: rat))
                \<and> \<bar>r - 100 * (of_nat C / of_nat T)\<bar> \<le> 1 / 200 + 1 / 2 ^ 44)
          \<and> (\<forall>n. 0 < T \<and> \<bar>10000 * (of_nat C / of_nat T) - of_int n\<bar> \<le> (1 / 2 - 1 / 2 ^ 38 :: rat)
                \<longrightarrow> r = float64 (of_int n / 100))
          \<and> (0 < T \<and> T \<le> 2 ^ 37 \<and> 2 * (10000 * C mod T) \<noteq> T
                \<longrightarrow> r = float64 (exact_rate C T))"
    by (intro exI[of _ r] conjI)
qed


lemma test_counts:
  "2 = length (stats_queryset user1 (tasks test_store))"
  "1 = length (filter completed (stats_queryset user1 (tasks test_store)))"
  "0 = length (stats_queryset user1 [])"
  "0 = length (filter completed (stats_queryset user1 []))"
  by code_simp+

lemma exact_rate_half: "exact_rate 1 2 = 50" "float64 50 = 50"
  by code_simp+

theorem task_stats_rate_witness:
  "length (stats_queryset user1 (tasks test_store)) = 2
   \<and> length (filter completed (stats_queryset user1 (tasks test_store))) = 1
   \<and> (2::nat) \<le> 2 ^ 37 \<and> 2 * (10000 * 1 mod 2) \<noteq> (2::nat)
   \<and> exact_rate 1 2 = 50
   \<and> task_stats user1 (tasks test_store)
       = Inr \<lparr>total_tasks = 2, completed_tasks = 1, pending_tasks = 1, completion_rate = 50\<rparr>
   \<and> length (stats_queryset user1 []) = 0
   \<and> task_stats user1 []
       = Inr \<lparr>total_tasks = 0, completed_tasks = 0, pending_tasks = 0, completion_rate = 0\<rparr>"
proof -
  have side: "0 < (2::nat) \<and> (2::nat) \<le> 2 ^ 37 \<and> 2 * (10000 * 1 mod 2) \<noteq> (2::nat)"
    by simp
  from task_stats_rate [OF refl test_counts(1) test_counts(2)]
  obtain r where r: "task_stats user1 (tasks test_store)
        = Inr \<lparr>total_tasks = 2, completed_tasks = 1, pending_tasks = 2 - 1, completion_rate = r\<rparr>"
    and sp: "0 < (2::nat) \<and> (2::nat) \<le> 2 ^ 37 \<and> 2 * (10000 * 1 mod 2) \<noteq> (2::nat)
        \<longrightarrow> r = float64 (exact_rate 1 2)"
    by blast
  from sp side have "r = float64 (exact_rate 1 2)" by (rule mp)
  then have "r = 50" by (simp only: exact_rate_half)
  with r have one: "task_stats user1 (tasks test_store)
       = Inr \<lparr>total_tasks = 2, completed_tasks = 1, pending_tasks = 1, completion_rate = 50\<rparr>"
    by simp
  from task_stats_rate [OF refl test_counts(3) test_counts(4)]
  obtain r0 where r0: "task_stats user1 []
        = Inr \<lparr>total_tasks = 0, completed_tasks = 0, pending_tasks = 0 - 0, completion_rate = r0\<rparr>"
    and z: "(0::nat) = 0 \<longrightarrow> r0 = 0"
    by blast
  from z r0 have two: "task_stats user1 []
       = Inr \<lparr>total_tasks = 0, completed_tasks = 0, pending_tasks = 0, completion_rate = 0\<rparr>"
    by simp
  show ?thesis
    using one two test_counts[symmetric] exact_rate_half(1) side by simp
qed

section \<open>Registration and the role\<close>

lemma register_Inr:
  assumes "register cfg r now tbl = (Inr u, tbl')"
  shows "u = new_user cfg r now (next_uid tbl)"
    and "tbl' = \<lparr>users = users tbl @ [u], next_uid = next_uid tbl + 1\<rparr>"
    and "registration_is_valid cfg r (users tbl)"
    and "unique_columns u (users tbl)"
  using assms by (auto simp: register_def Let_def split: if_splits)

lemma role_new_user:
  "role (new_user cfg r now key) = (case r_role r of None \<Rightarrow> ''user'' | Some x \<Rightarrow> x)"
  by (simp add: new_user_def validated_data_def Let_def)

lemma uid_new_user: "uid (new_user cfg r now key) = key"
  by (simp add: new_user_def Let_def)

lemma registered_role_choice:
  assumes "register cfg r now tbl = (Inr u, tbl')"
  shows "role u = ''admin'' \<or> role u = ''user''"
proof -
  from register_Inr(1,3)[OF assms] show ?thesis
    by (auto simp: role_new_user registration_is_valid_def validated_data_def ROLE_CHOICES_def
        Let_def split: option.splits)
qed

lemma register_keeps_unique:
  assumes "register cfg r now tbl = (Inr u, tbl')"
    and "distinct (map email (users tbl))" and "distinct (map username (users tbl))"
  shows "distinct (map email (users tbl')) \<and> distinct (map username (users tbl'))"
  using register_Inr(2,4)[OF assms(1)] assms(2,3)
  by (auto simp: unique_columns_def)

lemma admin_sees_all:
  assumes "role u = ''admin''"
  shows "list_get_queryset u rows = rows" "detail_get_queryset u rows = rows"
    "stats_queryset u rows = rows" "has_object_permission m u t"
  using assms
  by (simp_all add: list_get_queryset_def detail_get_queryset_def stats_queryset_def
      objects_all_def has_object_permission_def)

text \<open>
  C9. A registration that succeeds appends one user to the table, with the next key, and
  the role of that user is the role of the request, or \<^verbatim>\<open>"user"\<close> when the request has none.
  A request succeeds exactly when it is valid and the user name and e-mail address that
  would be stored are not in the table yet; an invalid request is answered with a
  validation error, a valid one that would store a duplicate with an integrity error, and
  both leave the table as it is. No caller is involved, so a request with the role
  \<^verbatim>\<open>"admin"\<close> creates an account for which the list, detail and statistics views select
  every row and the object permission holds for every task and every method.
\<close>

theorem register_role:
  "(register cfg r now tbl = (Inr u, tbl') \<longrightarrow>
      role u = (case r_role r of None \<Rightarrow> ''user'' | Some x \<Rightarrow> x)
      \<and> uid u = next_uid tbl
      \<and> tbl' = \<lparr>users = users tbl @ [u], next_uid = next_uid tbl + 1\<rparr>
      \<and> registration_is_valid cfg r (users tbl)
      \<and> (r_role r = Some ''admin'' \<longrightarrow>
           list_get_queryset u rows = rows \<and> detail_get_queryset u rows = rows
           \<and> stats_queryset u rows = rows \<and> has_object_permission m u t))
   \<and> (registration_is_valid cfg r (users tbl)
        \<and> unique_columns (new_user cfg r now (next_uid tbl)) (users tbl) \<longrightarrow>
        register cfg r now tbl
          = (Inr (new_user cfg r now (next_uid tbl)),
             \<lparr>users = users tbl @ [new_user cfg r now (next_uid tbl)],
              next_uid = next_uid tbl + 1\<rparr>)
        \<and> role (new_user cfg r now (next_uid tbl))
          = (case r_role r of None \<Rightarrow> ''user'' | Some x \<Rightarrow> x))
   \<and> (\<not> registration_is_valid cfg r (users tbl) \<longrightarrow>
        register cfg r now tbl = (Inl ValidationError, tbl))
   \<and> (registration_is_valid cfg r (users tbl)
        \<and> \<not> unique_columns (new_user cfg r now (next_uid tbl)) (users tbl) \<longrightarrow>
        register cfg r now tbl = (Inl IntegrityError, tbl))"
proof (intro conjI impI)
  assume reg: "register cfg r now tbl = (Inr u, tbl')"
  show rl: "role u = (case r_role r of None \<Rightarrow> ''user'' | Some x \<Rightarrow> x)"
    by (simp add: register_Inr(1)[OF reg] role_new_user)
  show "uid u = next_uid tbl"
    by (simp add: register_Inr(1)[OF reg] uid_new_user)
  show "tbl' = \<lparr>users = users tbl @ [u], next_uid = next_uid tbl + 1\<rparr>"
    by (rule register_Inr(2)[OF reg])
  show "registration_is_valid cfg r (users tbl)"
    by (rule register_Inr(3)[OF reg])
  assume "r_role r = Some ''admin''"
  with rl have adm: "role u = ''admin''" by simp
  show "list_get_queryset u rows = rows" "detail_get_queryset u rows = rows"
    "stats_queryset u rows = rows" "has_object_permission m u t"
    by (rule admin_sees_all[OF adm])+
next
  assume "registration_is_valid cfg r (users tbl)
      \<and> unique_columns (new_user cfg r now (next_uid tbl)) (users tbl)"
  then show "register cfg r now tbl
          = (Inr (new_user cfg r now (next_uid tbl)),
             \<lparr>users = users tbl @ [new_user cfg r now (next_uid tbl)],
              next_uid = next_uid tbl + 1\<rparr>)"
    by (simp add: register_def Let_def)
  show "role (new_user cfg r now (next_uid tbl))
          = (case r_role r of None \<Rightarrow> ''user'' | Some x \<Rightarrow> x)"
    by (rule role_new_user)
next
  assume "\<not> registration_is_valid cfg r (users tbl)"
  then show "register cfg r now tbl = (Inl ValidationError, tbl)"
    by (simp add: register_def)
next
  assume "registration_is_valid cfg r (users tbl)
      \<and> \<not> unique_columns (new_user cfg r now (next_uid tbl)) (users tbl)"
  then show "register cfg r now tbl = (Inl IntegrityError, tbl)"
    by (simp add: register_def Let_def)
qed

lemma lower_domain_example: "lower_domain ''test@EXAMPLE.com'' = ''test@example.com''"
  by code_simp

lemma new_user_example: "new_user test_config admin_registration 7 1 = registered_admin"
  by code_simp

lemma admin_registration_valid:
  "registration_is_valid test_config admin_registration (users no_users)"
  by code_simp

lemma admin_registration_unique:
  "unique_columns (new_user test_config admin_registration 7 (next_uid no_users)) (users no_users)"
  by (simp add: unique_columns_def no_users_def)

lemma bad_role_invalid:
  "\<not> registration_is_valid test_config (admin_registration\<lparr>r_role := Some ''root''\<rparr>)
      (users no_users)"
  by code_simp

lemma second_registration_valid:
  "registration_is_valid test_config second_registration (users one_user)"
  by code_simp

lemma second_registration_collides:
  "\<not> unique_columns (new_user test_config second_registration 8 (next_uid one_user))
      (users one_user)"
  by code_simp


theorem register_role_witness:
  "registration_is_valid test_config admin_registration (users no_users)
   \<and> unique_columns (new_user test_config admin_registration 7 (next_uid no_users)) (users no_users)
   \<and> register test_config admin_registration 7 no_users = (Inr registered_admin, one_user)
   \<and> r_role admin_registration = Some ''admin'' \<and> role registered_admin = ''admin''
   \<and> registered_admin \<in> set (users one_user)
   \<and> list_get_queryset registered_admin (tasks test_store) = tasks test_store
   \<and> detail_get_queryset registered_admin (tasks test_store) = tasks test_store
   \<and> has_object_permission DELETE registered_admin task1
   \<and> \<not> registration_is_valid test_config (admin_registration\<lparr>r_role := Some ''root''\<rparr>) (users no_users)
   \<and> register test_config (admin_registration\<lparr>r_role := Some ''root''\<rparr>) 7 no_users
       = (Inl ValidationError, no_users)
   \<and> registration_is_valid test_config second_registration (users one_user)
   \<and> \<not> unique_columns (new_user test_config second_registration 8 (next_uid one_user)) (users one_user)
   \<and> register test_config second_registration 8 one_user = (Inl IntegrityError, one_user)"
proof -
  have adm: "r_role admin_registration = Some ''admin''"
    by (simp add: admin_registration_def)
  have key: "next_uid no_users = 1" by (simp add: no_users_def)
  note ok = register_role [where cfg = test_config and r = admin_registration and now = 7
      and tbl = no_users, THEN conjunct2, THEN conjunct1, THEN mp,
      OF conjI [OF admin_registration_valid admin_registration_unique], THEN conjunct1]
  have tbl: "\<lparr>users = users no_users @ [registered_admin], next_uid = 1 + 1\<rparr> = one_user"
    by (simp add: one_user_def no_users_def)
  have reg: "register test_config admin_registration 7 no_users = (Inr registered_admin, one_user)"
    using ok by (simp only: key new_user_example tbl)
  note got = register_role [where cfg = test_config and r = admin_registration and now = 7
      and tbl = no_users and u = registered_admin and tbl' = one_user
      and rows = "tasks test_store" and m = DELETE and t = task1,
      THEN conjunct1, THEN mp, OF reg]
  have rl: "role registered_admin = ''admin''"
    using got [THEN conjunct1] by (simp only: adm option.case)
  have scope: "list_get_queryset registered_admin (tasks test_store) = tasks test_store
      \<and> detail_get_queryset registered_admin (tasks test_store) = tasks test_store
      \<and> stats_queryset registered_admin (tasks test_store) = tasks test_store
      \<and> has_object_permission DELETE registered_admin task1"
    by (rule got [THEN conjunct2, THEN conjunct2, THEN conjunct2, THEN conjunct2, THEN mp, OF adm])
  have stored: "registered_admin \<in> set (users one_user)"
    by (simp add: one_user_def)
  have bad: "register test_config (admin_registration\<lparr>r_role := Some ''root''\<rparr>) 7 no_users
       = (Inl ValidationError, no_users)"
    by (rule register_role [where cfg = test_config
      and r = "admin_registration\<lparr>r_role := Some ''root''\<rparr>" and now = 7 and tbl = no_users,
      THEN conjunct2, THEN conjunct2, THEN conjunct1, THEN mp, OF bad_role_invalid])
  have dup: "register test_config second_registration 8 one_user = (Inl IntegrityError, one_user)"
    by (rule register_role [where cfg = test_config and r = second_registration and now = 8
      and tbl = one_user, THEN conjunct2, THEN conjunct2, THEN conjunct2, THEN mp,
      OF conjI [OF second_registration_valid second_registration_collides]])
  show ?thesis
    by (intro conjI admin_registration_valid admin_registration_unique reg adm rl stored
        scope [THEN conjunct1] scope [THEN conjunct2, THEN conjunct1]
        scope [THEN conjunct2, THEN conjunct2, THEN conjunct2]
        bad_role_invalid bad second_registration_valid second_registration_collides dup)
qed

section \<open>Search, ordering and pages of the list\<close>

lemma list_tasks_ignores_search_and_ordering:
  "list_tasks u (q\<lparr>q_search := s, q_ordering := ord\<rparr>) rows = list_tasks u q rows"
  by (simp add: list_tasks_def filter_queryset_def TaskFilter_def)

text \<open>
  C6. The specification lets a \<^verbatim>\<open>search\<close> parameter select the tasks of the scoped set
  whose title or description contains it, letter case apart, and the view declares
  \<^verbatim>\<open>search_fields\<close> for it. The list view has no back end that reads
  \<^verbatim>\<open>search\<close>: for \<open>user1\<close> of the test fixtures, \<^verbatim>\<open>search=Task 1\<close> returns both of the
  caller's tasks, although neither the title nor the description of \<open>task2\<close> contains
  it; the \<^verbatim>\<open>title\<close> parameter of \<^verbatim>\<open>TaskFilter\<close> with the same text returns \<open>task1\<close> alone.
\<close>

theorem search_is_ignored:
  "map title (results (list_tasks user1 (no_params\<lparr>q_search := Some ''Task 1''\<rparr>) (tasks test_store)))
     = [''User1 Task 2'', ''User1 Task 1'']
   \<and> icontains (title task2) ''Task 1'' = False
   \<and> icontains (description task2) ''Task 1'' = False
   \<and> map title (results (list_tasks user1 (no_params\<lparr>q_title := Some ''Task 1''\<rparr>) (tasks test_store)))
     = [''User1 Task 1'']"
  by code_simp

text \<open>
  C7. The specification orders the results as the caller asks (\<^verbatim>\<open>created_at\<close>,
  \<^verbatim>\<open>updated_at\<close> or \<^verbatim>\<open>title\<close>) and by \<^verbatim>\<open>created_at\<close> descending otherwise, and the view
  declares \<^verbatim>\<open>ordering_fields\<close> for it.
  The list view has no back end that reads \<^verbatim>\<open>ordering\<close>: for \<open>user1\<close> of the test
  fixtures, \<^verbatim>\<open>ordering=title\<close>, \<^verbatim>\<open>ordering=-title\<close> and no \<^verbatim>\<open>ordering\<close> return the same list,
  the newer task first.
\<close>

theorem ordering_is_ignored:
  "map title (results (list_tasks user1 (no_params\<lparr>q_ordering := Some ''title''\<rparr>) (tasks test_store)))
     = [''User1 Task 2'', ''User1 Task 1'']
   \<and> map title (results (list_tasks user1 (no_params\<lparr>q_ordering := Some ''-title''\<rparr>) (tasks test_store)))
     = [''User1 Task 2'', ''User1 Task 1'']
   \<and> map title (results (list_tasks user1 no_params (tasks test_store)))
     = [''User1 Task 2'', ''User1 Task 1'']"
  by code_simp

lemma filter_queryset_page: "filter_queryset (q\<lparr>q_page := p\<rparr>) xs = filter_queryset q xs"
  by (simp add: filter_queryset_def TaskFilter_def)

text \<open>
  C8. For every caller, every filter and every page number from 1 on, the response holds
  the rows of that page of the ordered, filtered, scoped set, at most 20 of them; the count
  is the size of the filtered scoped set; there is a next page exactly when rows remain
  after this page and a previous page exactly when the number is above 1; a page beyond
  the last has no rows and is not an error; and a request without a page is page 1.
\<close>

theorem pagination_pages:
  assumes "1 \<le> n"
    and "xs = meta_ordering (filter_queryset q (list_get_queryset u rows))"
    and "pg = list_tasks u (q\<lparr>q_page := Some n\<rparr>) rows"
  shows "results pg = take 20 (drop (20 * (n - 1)) xs)
       \<and> length (results pg) \<le> 20
       \<and> count pg = length (filter_queryset q (list_get_queryset u rows))
       \<and> has_next pg = (20 * n < length xs)
       \<and> has_previous pg = (1 < n)
       \<and> ((length xs + 19) div 20 < n \<longrightarrow> results pg = [])
       \<and> list_tasks u (q\<lparr>q_page := None\<rparr>) rows = list_tasks u (q\<lparr>q_page := Some 1\<rparr>) rows"
proof -
  have pg: "pg = paginate_queryset n xs"
    by (simp add: assms(2,3) list_tasks_def filter_queryset_page)
  have r: "results pg = take 20 (drop (20 * (n - 1)) xs)"
    by (simp add: pg paginate_queryset_def PAGE_SIZE_def mult.commute)
  have len: "length xs = length (filter_queryset q (list_get_queryset u rows))"
    by (simp add: assms(2) meta_ordering_def)
  have beyond: "results pg = []" if "(length xs + 19) div 20 < n"
  proof -
    from that have "length xs \<le> 20 * (n - 1)" by linarith
    then show ?thesis by (simp add: r)
  qed
  have one: "list_tasks u (q\<lparr>q_page := None\<rparr>) rows = list_tasks u (q\<lparr>q_page := Some 1\<rparr>) rows"
    by (simp add: list_tasks_def filter_queryset_page)
  show ?thesis
    using r beyond one len
    by (simp add: pg paginate_queryset_def PAGE_SIZE_def mult.commute)
qed

lemma pagination_test_length:
  "length (meta_ordering (filter_queryset no_params (list_get_queryset user1 pagination_tasks))) = 25"
  by (simp add: meta_ordering_def filter_queryset_def TaskFilter_def no_params_def
      list_get_queryset_def objects_filter_user_def user1_def pagination_tasks_def)


theorem pagination_pages_witness:
  "(1::nat) \<le> 3
   \<and> results (list_tasks user1 (no_params\<lparr>q_page := Some 3\<rparr>) pagination_tasks) = []
   \<and> count (list_tasks user1 (no_params\<lparr>q_page := Some 3\<rparr>) pagination_tasks) = 25
   \<and> length (results (list_tasks user1 (no_params\<lparr>q_page := Some 1\<rparr>) pagination_tasks)) = 20
   \<and> has_next (list_tasks user1 (no_params\<lparr>q_page := Some 1\<rparr>) pagination_tasks) = True
   \<and> has_previous (list_tasks user1 (no_params\<lparr>q_page := Some 1\<rparr>) pagination_tasks) = False
   \<and> length (results (list_tasks user1 (no_params\<lparr>q_page := Some 2\<rparr>) pagination_tasks)) = 5
   \<and> has_next (list_tasks user1 (no_params\<lparr>q_page := Some 2\<rparr>) pagination_tasks) = False
   \<and> has_previous (list_tasks user1 (no_params\<lparr>q_page := Some 2\<rparr>) pagination_tasks) = True"
proof -
  note len = pagination_test_length
  have l2: "length (filter_queryset no_params (list_get_queryset user1 pagination_tasks)) = 25"
    using len by (simp add: meta_ordering_def)
  have p1: "(1::nat) \<le> 1" and p2: "(1::nat) \<le> 2" and p3: "(1::nat) \<le> 3" by simp_all
  note i1 = pagination_pages [OF p1 refl refl, where q = no_params and u = user1
      and rows = pagination_tasks]
  note i2 = pagination_pages [OF p2 refl refl, where q = no_params and u = user1
      and rows = pagination_tasks]
  note i3 = pagination_pages [OF p3 refl refl, where q = no_params and u = user1
      and rows = pagination_tasks]
  show ?thesis
    using i1 i2 i3 by (simp add: len l2)
qed

end
